theory Spec2Isabelle
  imports Main
begin

section \<open>Snapshot comparator (\<open>equal_confs\<close>)\<close>

subsection \<open>String helpers and the regular expression of the "unset" comment\<close>

text \<open>
  Python's \<open>line.startswith(p)\<close>: the first \<open>len(p)\<close> characters of the line are \<open>p\<close>
  (false when the line is shorter than \<open>p\<close>).
\<close>

definition startswith :: "string \<Rightarrow> string \<Rightarrow> bool" where
  "startswith s p = (take (length p) s = p)"

text \<open>
  The character class \<open>\w\<close> of Python 2's \<open>re\<close> on byte strings (no flags):
  letters, digits and the underscore.
\<close>

definition is_word :: "char \<Rightarrow> bool" where
  "is_word c =
     (c \<in> set ''abcdefghijklmnopqrstuvwxyzABCDEFGHIJKLMNOPQRSTUVWXYZ0123456789_'')"

text \<open>
  The pattern \<open>unset_re = r"# CONFIG_(\w+) is not set"\<close> uses two constructs only:
  literal characters and the group \<open>(\w+)\<close>. \<open>re.match\<close> anchors the pattern at the
  start of the line and accepts any text after the match; \<open>\w+\<close> takes one or more word
  characters and may give characters back (backtracking), which the last equation of
  \<open>re_match\<close> writes out: after a word character the group either ends or goes on.
\<close>

datatype re_item = Lit char | WordPlus

fun re_match :: "re_item list \<Rightarrow> string \<Rightarrow> bool" where
  "re_match [] s = True"
| "re_match (Lit c # r) [] = False"
| "re_match (Lit c # r) (x # xs) = (x = c \<and> re_match r xs)"
| "re_match (WordPlus # r) [] = False"
| "re_match (WordPlus # r) (x # xs) =
     (is_word x \<and> (re_match r xs \<or> re_match (WordPlus # r) xs))"

definition unset_re :: "re_item list" where
  "unset_re = map Lit ''# CONFIG_'' @ [WordPlus] @ map Lit '' is not set''"

subsection \<open>The comparison of the two line lists\<close>

text \<open>
  The loop \<open>for line in l1: if not line.startswith("#") or re.match(unset_re, line): break;
  i += 1\<close>, with the counter \<open>i\<close> as an accumulator. The result is the value of \<open>i\<close>
  after the loop.
\<close>

fun skip_header :: "string list \<Rightarrow> nat \<Rightarrow> nat" where
  "skip_header [] i = i"
| "skip_header (line # rest) i =
     (if \<not> startswith line ''#'' \<or> re_match unset_re line then i
      else skip_header rest (i + 1))"

text \<open>
  The body of \<open>equal_confs\<close> after both files are read: \<open>l1\<close> holds the lines of
  \<open>.config\<close> (written by the reference tool), \<open>l2\<close> the lines of \<open>._config\<close>
  (written by the library); the result is \<open>l1[i:] == l2\<close>.
\<close>

definition equal_lines :: "string list \<Rightarrow> string list \<Rightarrow> bool" where
  "equal_lines l1 l2 = (let i = skip_header l1 0 in drop i l1 = l2)"




section \<open>The resolution engine as a collaborator\<close>

text \<open>
  Tristate values: the strings \<open>"n"\<close>, \<open>"m"\<close> and \<open>"y"\<close> of the library.
\<close>

datatype tri = N | M | Y

text \<open>
  Modelled from the spec: \<open>kconfiglib.tri_less\<close> is not part of the sources at hand;
  the specification orders the tristate domain \<open>n < m < y\<close>, and \<open>tri_less v1 v2\<close>
  holds when \<open>v1\<close> is strictly below \<open>v2\<close> in that order.
\<close>

fun tri_to_int :: "tri \<Rightarrow> nat" where
  "tri_to_int N = 0"
| "tri_to_int M = 1"
| "tri_to_int Y = 2"

definition tri_less :: "tri \<Rightarrow> tri \<Rightarrow> bool" where
  "tri_less v1 v2 = (tri_to_int v1 < tri_to_int v2)"

text \<open>
  Symbols, choices and \<open>Config\<close> instances are Python objects; the model names each by
  a handle. The state of all of them, together with the files and the reference tool,
  is the world \<open>'w\<close>, which every mutating call takes and returns.
\<close>

type_synonym sym = nat
type_synonym choice = nat
type_synonym conf = nat

text \<open>
  The exceptions that can leave a function of the test suite: those of Python for a
  file that cannot be opened, a directory that cannot be listed and a variable
  missing from the environment, the syntax error of the library, and any other
  exception the library raises. \<open>Passes_Exhausted\<close> is no exception of the
  program: it stands for a resolver loop that has not ended within the number of
  passes the model follows it.
\<close>

datatype error =
    IOError string
  | OSError string
  | KeyError string
  | Kconfig_Syntax_Error
  | Other_Exception string
  | Passes_Exhausted

text \<open>
  The public methods of the library that the test suite calls. The library itself is
  not part of the sources at hand, so each method is a parameter; a method that
  mutates returns the new world. \<open>iter_syms\<close> is \<open>Config.__iter__\<close> (the loop
  \<open>for sym in conf\<close>), \<open>eval_expr\<close> is \<open>Config.eval\<close>, \<open>conf_reset\<close> is
  \<open>Config.reset\<close> and \<open>sym_reset\<close> is \<open>Symbol.reset\<close>. \<open>get_arch\<close> is fixed when the
  instance is made and does not depend on the world. The test suite reads the value
  of a symbol only where the symbol is of type bool or tristate (its bound is not
  \<open>None\<close>, or it is an item of a choice), so \<open>calc_value\<close> returns a tristate value.
\<close>

record 'w engine =
  get_arch :: "conf \<Rightarrow> string"
  iter_syms :: "'w \<Rightarrow> conf \<Rightarrow> sym list"
  get_symbols :: "'w \<Rightarrow> conf \<Rightarrow> sym list"
  get_choices :: "'w \<Rightarrow> conf \<Rightarrow> choice list"
  is_choice_item :: "'w \<Rightarrow> sym \<Rightarrow> bool"
  get_lower_bound :: "'w \<Rightarrow> sym \<Rightarrow> tri option"
  get_upper_bound :: "'w \<Rightarrow> sym \<Rightarrow> tri option"
  calc_value :: "'w \<Rightarrow> sym \<Rightarrow> tri"
  set_value :: "'w \<Rightarrow> sym \<Rightarrow> tri \<Rightarrow> 'w"
  get_visibility :: "'w \<Rightarrow> choice \<Rightarrow> tri"
  get_selection_from_defaults :: "'w \<Rightarrow> choice \<Rightarrow> sym option"
  get_user_selection :: "'w \<Rightarrow> choice \<Rightarrow> sym option"
  get_items :: "'w \<Rightarrow> choice \<Rightarrow> sym list"
  eval_expr :: "'w \<Rightarrow> conf \<Rightarrow> string \<Rightarrow> error + tri"
  conf_reset :: "'w \<Rightarrow> conf \<Rightarrow> 'w"
  sym_reset :: "'w \<Rightarrow> sym \<Rightarrow> 'w"
  get_name :: "'w \<Rightarrow> sym \<Rightarrow> string"
  is_special :: "'w \<Rightarrow> sym \<Rightarrow> bool"
  is_from_environment :: "'w \<Rightarrow> sym \<Rightarrow> bool"
  is_defined :: "'w \<Rightarrow> sym \<Rightarrow> bool"
  get_def_locations :: "'w \<Rightarrow> sym \<Rightarrow> (string \<times> int) list"
  get_ref_locations :: "'w \<Rightarrow> sym \<Rightarrow> (string \<times> int) list"
  load_config :: "'w \<Rightarrow> conf \<Rightarrow> string \<Rightarrow> 'w"
  write_config :: "'w \<Rightarrow> conf \<Rightarrow> string \<Rightarrow> 'w"

section \<open>Fixed-point resolver\<close>

subsection \<open>\<open>test_all_no\<close>: the minimal configuration\<close>

text \<open>
  The body of \<open>for sym in conf\<close> for one symbol. The pair is the world and the flag
  \<open>done\<close>. The value is assigned when the symbol is no choice item, its lower bound
  is not \<open>None\<close> and \<open>tri_less(lower_bound, sym.calc_value())\<close> holds.
\<close>

definition all_no_step :: "'w engine \<Rightarrow> sym \<Rightarrow> 'w \<times> bool \<Rightarrow> 'w \<times> bool" where
  "all_no_step E symb s =
     (case s of (w, done) \<Rightarrow>
        if \<not> is_choice_item E w symb then
          (case get_lower_bound E w symb of
             None \<Rightarrow> (w, done)
           | Some lower_bound \<Rightarrow>
               if tri_less lower_bound (calc_value E w symb)
               then (set_value E w symb lower_bound, False)
               else (w, done))
        else (w, done))"

text \<open>
  One pass of the \<open>while True\<close> loop: \<open>done = True\<close>, then the \<open>for\<close> loop over the
  symbols the instance yields at the start of the pass.
\<close>

definition all_no_pass :: "'w engine \<Rightarrow> conf \<Rightarrow> 'w \<Rightarrow> 'w \<times> bool" where
  "all_no_pass E c w = fold (all_no_step E) (iter_syms E w c) (w, True)"

text \<open>
  The \<open>while True\<close> loop, which ends after the first pass that leaves \<open>done\<close> set.
  The first argument bounds the number of passes; \<open>None\<close> says that the loop has
  not ended within that many passes.
\<close>

fun all_no_loop :: "nat \<Rightarrow> 'w engine \<Rightarrow> conf \<Rightarrow> 'w \<Rightarrow> 'w option" where
  "all_no_loop 0 E c w = None"
| "all_no_loop (Suc n) E c w =
     (case all_no_pass E c w of (w', done) \<Rightarrow>
        if done then Some w' else all_no_loop n E c w')"

subsection \<open>\<open>test_all_yes\<close>: the maximal configuration\<close>

text \<open>
  \<open>non_choice_syms\<close>, computed once before the loop.
\<close>

definition non_choice_syms :: "'w engine \<Rightarrow> conf \<Rightarrow> 'w \<Rightarrow> sym list" where
  "non_choice_syms E c w = filter (\<lambda>symb. \<not> is_choice_item E w symb) (get_symbols E w c)"

text \<open>
  The body of \<open>for sym in non_choice_syms\<close>: the value is assigned when the upper
  bound is not \<open>None\<close> and \<open>tri_less(sym.calc_value(), upper_bound)\<close> holds.
\<close>

definition all_yes_step :: "'w engine \<Rightarrow> sym \<Rightarrow> 'w \<times> bool \<Rightarrow> 'w \<times> bool" where
  "all_yes_step E symb s =
     (case s of (w, done) \<Rightarrow>
        (case get_upper_bound E w symb of
           None \<Rightarrow> (w, done)
         | Some upper_bound \<Rightarrow>
             if tri_less (calc_value E w symb) upper_bound
             then (set_value E w symb upper_bound, False)
             else (w, done)))"

text \<open>
  The body of \<open>for sym in choice.get_items()\<close> of a choice in "m" mode. The upper
  bound may be \<open>None\<close>, which differs from \<open>"n"\<close>.
\<close>

definition all_yes_item :: "'w engine \<Rightarrow> sym \<Rightarrow> 'w \<times> bool \<Rightarrow> 'w \<times> bool" where
  "all_yes_item E symb s =
     (case s of (w, done) \<Rightarrow>
        if calc_value E w symb \<noteq> M \<and> get_upper_bound E w symb \<noteq> Some N
        then (set_value E w symb M, False)
        else (w, done))"

text \<open>
  The body of \<open>for choice in conf.get_choices()\<close>. \<open>selection is not
  choice.get_user_selection()\<close> compares object identity; the user selection may be
  \<open>None\<close>.
\<close>

definition all_yes_choice :: "'w engine \<Rightarrow> choice \<Rightarrow> 'w \<times> bool \<Rightarrow> 'w \<times> bool" where
  "all_yes_choice E ch s =
     (case s of (w, done) \<Rightarrow>
        if get_visibility E w ch = Y then
          (case get_selection_from_defaults E w ch of
             None \<Rightarrow> (w, done)
           | Some selection \<Rightarrow>
               if get_user_selection E w ch \<noteq> Some selection
               then (set_value E w selection Y, False)
               else (w, done))
        else if get_visibility E w ch = M then
          fold (all_yes_item E) (get_items E w ch) (w, done)
        else (w, done))"

text \<open>
  The first \<open>for\<close> loop of a pass, over the symbols outside choices.
\<close>

definition all_yes_syms_pass :: "'w engine \<Rightarrow> sym list \<Rightarrow> 'w \<Rightarrow> 'w \<times> bool" where
  "all_yes_syms_pass E syms w = fold (all_yes_step E) syms (w, True)"

text \<open>
  One pass of the \<open>while True\<close> loop: both \<open>for\<close> loops, the second over the choices
  the instance returns after the first.
\<close>

definition all_yes_pass :: "'w engine \<Rightarrow> conf \<Rightarrow> sym list \<Rightarrow> 'w \<Rightarrow> 'w \<times> bool" where
  "all_yes_pass E c syms w =
     (case all_yes_syms_pass E syms w of (w1, done1) \<Rightarrow>
        fold (all_yes_choice E) (get_choices E w1 c) (w1, done1))"

fun all_yes_loop :: "nat \<Rightarrow> 'w engine \<Rightarrow> conf \<Rightarrow> sym list \<Rightarrow> 'w \<Rightarrow> 'w option" where
  "all_yes_loop 0 E c syms w = None"
| "all_yes_loop (Suc n) E c syms w =
     (case all_yes_pass E c syms w of (w', done) \<Rightarrow>
        if done then Some w' else all_yes_loop n E c syms w')"

section \<open>The host: files, processes and the kernel tree\<close>

text \<open>
  What the test suite asks of the operating system. \<open>shell\<close> runs a command (the
  reference tool among them) with the environment of the process; \<open>path_exists\<close>,
  \<open>os_remove\<close> and \<open>readlines\<close> act on the files of the working directory
  (\<open>readlines\<close> is \<open>open(f).readlines()\<close>, \<open>None\<close> when the file cannot be opened);
  \<open>fail_log_open\<close> is \<open>open("test_defconfig_fails", "a")\<close> and \<open>fail_log_write\<close>
  the \<open>write\<close> and \<open>flush\<close> of one record for an architecture and a defconfig, the
  time stamp being the host's. \<open>new_config\<close> is the constructor
  \<open>kconfiglib.Config(base_dir = ".")\<close>, which reads the environment and may raise.
\<close>

record 'w host =
  new_config :: "'w \<Rightarrow> (string \<rightharpoonup> string) \<Rightarrow> error + conf \<times> 'w"
  shell :: "'w \<Rightarrow> (string \<rightharpoonup> string) \<Rightarrow> string \<Rightarrow> 'w"
  path_exists :: "'w \<Rightarrow> string \<Rightarrow> bool"
  os_remove :: "'w \<Rightarrow> string \<Rightarrow> 'w"
  readlines :: "'w \<Rightarrow> string \<Rightarrow> string list option"
  fail_log_open :: "'w \<Rightarrow> 'w"
  fail_log_write :: "'w \<Rightarrow> string \<Rightarrow> string \<Rightarrow> 'w"

text \<open>
  The directory \<open>arch\<close> of the kernel tree, which the test suite only reads: a file,
  or a directory with its entries in the order \<open>os.listdir\<close> returns them
  (\<open>os.listdir\<close> of a file raises \<open>OSError\<close>). No operation of the test suite
  writes below \<open>arch\<close>, so the tree is an input that stays the same during a run.
\<close>

datatype node = File | Dir "(string \<times> node) list"

text \<open>
  The entry \<open>name\<close> of a directory (\<open>None\<close> below a file and for a missing name).
\<close>

definition child :: "node \<Rightarrow> string \<Rightarrow> node option" where
  "child nd name = (case nd of File \<Rightarrow> None | Dir es \<Rightarrow> map_of es name)"

text \<open>
  \<open>os.path.join\<close> of two components.
\<close>

definition join :: "string \<Rightarrow> string \<Rightarrow> string" where
  "join a b =
     (if startswith b ''/'' then b
      else if a = [] \<or> last a = CHR ''/'' then a @ b
      else a @ ''/'' @ b)"

section \<open>The state of the test suite\<close>

text \<open>
  What the test suite prints, one event for each \<open>print\<close>. \<open>Arch_result a ok\<close> is the
  line \<open>"  {0:<14}".format(a)\<close> followed by \<open>OK\<close> or \<open>FAIL\<close>;
  \<open>Defconfig_result a d ok\<close> is the line of \<open>test_defconfig\<close> for the architecture
  \<open>a\<close> and the defconfig \<open>d\<close>; \<open>Doc f\<close> is the docstring of the function \<open>f\<close>;
  \<open>Sanity k name\<close> is one of the \<open>Fail:\<close> messages of \<open>test_call_all\<close>;
  \<open>Pairs_tested n\<close> is \<open>print nconfigs, "arch/defconfig pairs tested"\<close>.
\<close>

datatype sanity =
    No_syntax_error
  | Env_lacks_def_locations
  | Special_not_defined
  | Special_has_def_locations
  | Defined_lacks_locations
  | Undefined_has_locations
  | Undefined_unreferenced

datatype event =
    Msg string
  | Doc string
  | For_arch string
  | Arch_result string bool
  | Defconfig_result string string bool
  | Sanity sanity string
  | Not_a_directory string
  | Pairs_tested int

text \<open>
  The globals of the module (\<open>_all_ok\<close>, \<open>nconfigs\<close>), the environment of the process,
  the standard output and the world.
\<close>

record 'w state =
  world :: 'w
  environ :: "string \<rightharpoonup> string"
  all_ok_flag :: bool
  nconfigs :: int
  stdout :: "event list"

definition print :: "event \<Rightarrow> 'w state \<Rightarrow> 'w state" where
  "print e st = st\<lparr>stdout := stdout st @ [e]\<rparr>"

text \<open>
  The statements at module level: \<open>KERNELVERSION\<close> is set, \<open>KCONFIG_ALLCONFIG\<close> is
  removed, \<open>nconfigs = 0\<close> and \<open>_all_ok = True\<close>.
\<close>

definition init_state :: "'w \<Rightarrow> (string \<rightharpoonup> string) \<Rightarrow> 'w state" where
  "init_state w env =
     \<lparr>world = w,
      environ = (env(''KERNELVERSION'' \<mapsto> ''2''))(''KCONFIG_ALLCONFIG'' := None),
      all_ok_flag = True, nconfigs = 0, stdout = []\<rparr>"

definition fail :: "'w state \<Rightarrow> 'w state" where
  "fail st = st\<lparr>all_ok_flag := False\<rparr>"

definition all_ok :: "'w state \<Rightarrow> bool" where
  "all_ok st = all_ok_flag st"

text \<open>
  A \<open>for\<close> loop whose body may raise: the first exception ends the loop.
\<close>

fun for_each :: "('a \<Rightarrow> 's \<Rightarrow> error + 's) \<Rightarrow> 'a list \<Rightarrow> 's \<Rightarrow> error + 's" where
  "for_each f [] s = Inr s"
| "for_each f (x # xs) s =
     (case f x s of Inl e \<Rightarrow> Inl e | Inr s' \<Rightarrow> for_each f xs s')"

section \<open>Helper functions of the test suite\<close>

definition rm_if_exists :: "'w host \<Rightarrow> string \<Rightarrow> 'w \<Rightarrow> 'w" where
  "rm_if_exists H f w = (if path_exists H w f then os_remove H w f else w)"

definition rm_configs :: "'w host \<Rightarrow> 'w \<Rightarrow> 'w" where
  "rm_configs H w = rm_if_exists H ''._config'' (rm_if_exists H ''.config'' w)"

text \<open>
  \<open>equal_confs\<close>: both files are read (\<open>open\<close> raises \<open>IOError\<close> for a file that is
  not there), then the lines are compared.
\<close>

definition equal_confs :: "'w host \<Rightarrow> 'w \<Rightarrow> error + bool" where
  "equal_confs H w =
     (case readlines H w ''.config'' of
        None \<Rightarrow> Inl (IOError ''.config'')
      | Some l1 \<Rightarrow>
          (case readlines H w ''._config'' of
             None \<Rightarrow> Inl (IOError ''._config'')
           | Some l2 \<Rightarrow> Inr (equal_lines l1 l2)))"

section \<open>The tests\<close>

type_synonym 'w test = "conf \<Rightarrow> 'w state \<Rightarrow> error + 'w state"

text \<open>
  \<open>test_all_no\<close>, \<open>test_all_yes\<close> and \<open>test_config_absent\<close>: the resolver loop (at
  most \<open>fuel\<close> passes), then \<open>conf.write_config("._config")\<close> and the reference tool.
\<close>

definition test_all_no :: "nat \<Rightarrow> 'w engine \<Rightarrow> 'w host \<Rightarrow> 'w test" where
  "test_all_no fuel E H c st =
     (case all_no_loop fuel E c (world st) of
        None \<Rightarrow> Inl Passes_Exhausted
      | Some w \<Rightarrow>
          Inr (st\<lparr>world :=
                 shell H (write_config E w c ''._config'') (environ st) ''make allnoconfig''\<rparr>))"

definition test_all_yes :: "nat \<Rightarrow> 'w engine \<Rightarrow> 'w host \<Rightarrow> 'w test" where
  "test_all_yes fuel E H c st =
     (case all_yes_loop fuel E c (non_choice_syms E c (world st)) (world st) of
        None \<Rightarrow> Inl Passes_Exhausted
      | Some w \<Rightarrow>
          Inr (st\<lparr>world :=
                 shell H (write_config E w c ''._config'') (environ st) ''make allyesconfig''\<rparr>))"

definition test_config_absent :: "'w engine \<Rightarrow> 'w host \<Rightarrow> 'w test" where
  "test_config_absent E H c st =
     Inr (st\<lparr>world :=
            shell H (write_config E (world st) c ''._config'') (environ st)
              ''make alldefconfig''\<rparr>)"

subsection \<open>\<open>test_call_all\<close>\<close>

text \<open>
  The two calls of \<open>conf.eval\<close>. The first is outside any \<open>try\<close>, so whatever it
  raises leaves the test. The second is inside \<open>try ... except
  kconfiglib.Kconfig_Syntax_Error\<close>: that exception sets \<open>caught_exception\<close>, any
  other leaves the test, and a normal return leaves \<open>caught_exception\<close> false; then
  \<open>if not caught_exception\<close> prints the message and calls \<open>fail()\<close>.
\<close>

definition eval_checks :: "'w engine \<Rightarrow> 'w test" where
  "eval_checks E c st =
     (case eval_expr E (world st) c ''y && ARCH'' of
        Inl e \<Rightarrow> Inl e
      | Inr v \<Rightarrow>
          (case eval_expr E (world st) c ''y && && y'' of
             Inl e \<Rightarrow> (if e = Kconfig_Syntax_Error then Inr st else Inl e)
           | Inr v' \<Rightarrow> Inr (fail (print (Sanity No_syntax_error []) st))))"

text \<open>
  The body of \<open>for s in conf.get_symbols()\<close>: \<open>s.reset()\<close>, then the checks of the
  locations. The other calls of the loop only read and their results are dropped.
  The last message is printed without a call of \<open>fail()\<close>.
\<close>

definition check_symbol :: "'w engine \<Rightarrow> sym \<Rightarrow> 'w state \<Rightarrow> 'w state" where
  "check_symbol E s st0 =
     (let st = st0\<lparr>world := sym_reset E (world st0) s\<rparr>;
          w = world st;
          name = get_name E w s
      in if is_special E w s then
           (if is_from_environment E w s then
              (if get_def_locations E w s = []
               then fail (print (Sanity Env_lacks_def_locations name) st) else st)
            else
              (let st1 = (if \<not> is_defined E w s
                          then fail (print (Sanity Special_not_defined name) st) else st)
               in if \<not> get_def_locations E w s = []
                  then fail (print (Sanity Special_has_def_locations name) st1) else st1))
         else
           (if is_defined E w s then
              (if get_def_locations E w s = []
               then fail (print (Sanity Defined_lacks_locations name) st) else st)
            else
              (let st1 = (if get_def_locations E w s \<noteq> []
                          then fail (print (Sanity Undefined_has_locations name) st) else st)
               in if get_ref_locations E w s = []
                  then print (Sanity Undefined_unreferenced name) st1 else st1)))"

text \<open>
  \<open>test_call_all\<close>: the loops over choices, menus and comments only read and are
  left out.
\<close>

definition test_call_all :: "'w engine \<Rightarrow> 'w test" where
  "test_call_all E c st0 =
     (case eval_checks E c (print (For_arch (get_arch E c)) st0) of
        Inl e \<Rightarrow> Inl e
      | Inr st1 \<Rightarrow>
          (let st2 = st1\<lparr>world := conf_reset E (world st1) c\<rparr>
           in Inr (fold (check_symbol E) (get_symbols E (world st2) c) st2)))"

subsection \<open>\<open>test_defconfig\<close>\<close>

text \<open>
  \<open>os.walk(defconfigs_dir)\<close> with the files of each directory appended as they come:
  first the files of the directory itself, then the walk of each of its
  subdirectories, in the order of the listing.
\<close>

fun walk_files :: "string \<Rightarrow> node \<Rightarrow> string list"
  and walk_subdirs :: "string \<Rightarrow> (string \<times> node) list \<Rightarrow> string list" where
  "walk_files dirpath File = []"
| "walk_files dirpath (Dir es) =
     map (join dirpath) (map fst (filter (\<lambda>e. snd e = File) es)) @ walk_subdirs dirpath es"
| "walk_subdirs dirpath [] = []"
| "walk_subdirs dirpath ((name, File) # es) = walk_subdirs dirpath es"
| "walk_subdirs dirpath ((name, Dir sub) # es) =
     walk_files (join dirpath name) (Dir sub) @ walk_subdirs dirpath es"

text \<open>
  The body of \<open>for arch in os.listdir("arch")\<close>: the pair is the list \<open>defconfigs\<close>
  and the warnings printed so far.
\<close>

definition collect_arch ::
  "string \<times> node \<Rightarrow> string list \<times> event list \<Rightarrow> string list \<times> event list" where
  "collect_arch entry acc =
     (case entry of (arch, nd) \<Rightarrow>
      case acc of (defconfigs, warnings) \<Rightarrow>
        (let arch_dir = join ''arch'' arch;
             root_defconfig = join arch_dir ''defconfig'';
             defconfigs1 = (if child nd ''defconfig'' \<noteq> None
                            then defconfigs @ [root_defconfig] else defconfigs);
             defconfigs_dir = join arch_dir ''configs''
         in case child nd ''configs'' of
              None \<Rightarrow> (defconfigs1, warnings)
            | Some File \<Rightarrow> (defconfigs1, warnings @ [Not_a_directory defconfigs_dir])
            | Some (Dir es) \<Rightarrow>
                (defconfigs1 @ walk_files defconfigs_dir (Dir es), warnings)))"

definition collect_defconfigs :: "node \<Rightarrow> error + string list \<times> event list" where
  "collect_defconfigs tree =
     (case tree of
        File \<Rightarrow> Inl (OSError ''arch'')
      | Dir es \<Rightarrow> Inr (fold collect_arch es ([], [])))"

text \<open>
  The body of \<open>for defconfig in defconfigs\<close>.
\<close>

definition defconfig_trial :: "'w engine \<Rightarrow> 'w host \<Rightarrow> conf \<Rightarrow> string \<Rightarrow> 'w state \<Rightarrow> error + 'w state" where
  "defconfig_trial E H c defconfig st =
     (let w1 = rm_configs H (world st);
          n = nconfigs st + 1;
          w2 = load_config E w1 c defconfig;
          w3 = write_config E w2 c ''._config'';
          w4 = shell H w3 (environ st) (''cp '' @ defconfig @ '' .config'');
          w5 = shell H w4 (environ st) ''make kconfiglibtestconfig'';
          st5 = st\<lparr>world := w5, nconfigs := n\<rparr>
      in case equal_confs H w5 of
           Inl e \<Rightarrow> Inl e
         | Inr True \<Rightarrow> Inr (print (Defconfig_result (get_arch E c) defconfig True) st5)
         | Inr False \<Rightarrow>
             Inr (fail
               ((print (Defconfig_result (get_arch E c) defconfig False) st5)
                  \<lparr>world := fail_log_write H w5 (get_arch E c) defconfig\<rparr>)))"

definition test_defconfig :: "'w engine \<Rightarrow> 'w host \<Rightarrow> node \<Rightarrow> 'w test" where
  "test_defconfig E H tree c st =
     (let st1 = st\<lparr>world := fail_log_open H (world st)\<rparr>
      in case collect_defconfigs tree of
           Inl e \<Rightarrow> Inl e
         | Inr (defconfigs, warnings) \<Rightarrow>
             for_each (defconfig_trial E H c) defconfigs
               (st1\<lparr>stdout := stdout st1 @ warnings\<rparr>))"

section \<open>The run\<close>

subsection \<open>\<open>get_arch_configs\<close>\<close>

text \<open>
  \<open>add_arch\<close>: both variables are set, then an instance is made and appended.
\<close>

definition add_arch ::
  "'w host \<Rightarrow> string \<Rightarrow> string \<Rightarrow> conf list \<times> 'w state \<Rightarrow> error + conf list \<times> 'w state" where
  "add_arch H archdir ARCH acc =
     (case acc of (res, st) \<Rightarrow>
        (let env = (environ st)(''SRCARCH'' \<mapsto> archdir, ''ARCH'' \<mapsto> ARCH)
         in case new_config H (world st) env of
              Inl e \<Rightarrow> Inl e
            | Inr (c, w) \<Rightarrow> Inr (res @ [c], st\<lparr>world := w, environ := env\<rparr>)))"

text \<open>
  The additional \<open>ARCH\<close> settings of an architecture directory.
\<close>

definition additional_archs :: "string \<Rightarrow> string list" where
  "additional_archs archdir =
     (if archdir = ''x86'' then [''i386'', ''x86_64'']
      else if archdir = ''sparc'' then [''sparc32'', ''sparc64'']
      else if archdir = ''sh'' then [''sh64'']
      else if archdir = ''tile'' then [''tilepro'', ''tilegx'']
      else [])"

text \<open>
  The body of \<open>for archdir in os.listdir("arch")\<close>.
\<close>

definition arch_configs_step ::
  "'w host \<Rightarrow> string \<times> node \<Rightarrow> conf list \<times> 'w state \<Rightarrow> error + conf list \<times> 'w state" where
  "arch_configs_step H entry acc =
     (case entry of (archdir, nd) \<Rightarrow>
        if archdir = ''h8300'' then Inr acc
        else if child nd ''Kconfig'' \<noteq> None
        then for_each (add_arch H archdir) (archdir # additional_archs archdir) acc
        else Inr acc)"

text \<open>
  \<open>del os.environ[k]\<close> raises \<open>KeyError\<close> for a variable that is not set.
\<close>

definition del_environ :: "string \<Rightarrow> 'w state \<Rightarrow> error + 'w state" where
  "del_environ k st =
     (if environ st k = None then Inl (KeyError k)
      else Inr (st\<lparr>environ := (environ st)(k := None)\<rparr>))"

definition get_arch_configs :: "'w host \<Rightarrow> node \<Rightarrow> 'w state \<Rightarrow> error + conf list \<times> 'w state" where
  "get_arch_configs H tree st =
     (case tree of
        File \<Rightarrow> Inl (OSError ''arch'')
      | Dir es \<Rightarrow>
          (case for_each (arch_configs_step H) es ([], st) of
             Inl e \<Rightarrow> Inl e
           | Inr (res, st1) \<Rightarrow>
               (case del_environ ''ARCH'' st1 of
                  Inl e \<Rightarrow> Inl e
                | Inr st2 \<Rightarrow>
                    (case del_environ ''SRCARCH'' st2 of
                       Inl e \<Rightarrow> Inl e
                     | Inr st3 \<Rightarrow> Inr (res, st3)))))"

subsection \<open>\<open>run_tests\<close>\<close>

text \<open>
  The list \<open>all_arch_tests\<close>; each entry carries the name of the function, whose
  docstring is printed, the function and the flag \<open>compare_configs\<close>.
\<close>

definition all_arch_tests ::
  "nat \<Rightarrow> 'w engine \<Rightarrow> 'w host \<Rightarrow> node \<Rightarrow> (string \<times> 'w test \<times> bool) list" where
  "all_arch_tests fuel E H tree =
     [(''test_all_no'', test_all_no fuel E H, True),
      (''test_config_absent'', test_config_absent E H, True),
      (''test_all_yes'', test_all_yes fuel E H, True),
      (''test_call_all'', test_call_all E, False),
      (''test_defconfig'', test_defconfig E H tree, False)]"

text \<open>
  The body of \<open>for conf in arch_configs\<close>.
\<close>

definition run_conf ::
  "'w engine \<Rightarrow> 'w host \<Rightarrow> 'w test \<Rightarrow> bool \<Rightarrow> conf \<Rightarrow> 'w state \<Rightarrow> error + 'w state" where
  "run_conf E H test_fn compare_configs c st =
     (let st1 = st\<lparr>world := rm_configs H (world st),
                   environ := (environ st)(''ARCH'' \<mapsto> get_arch E c)\<rparr>
      in case test_fn c st1 of
           Inl e \<Rightarrow> Inl e
         | Inr st2 \<Rightarrow>
             if compare_configs then
               (case equal_confs H (world st2) of
                  Inl e \<Rightarrow> Inl e
                | Inr True \<Rightarrow> Inr (print (Arch_result (get_arch E c) True) st2)
                | Inr False \<Rightarrow> Inr (fail (print (Arch_result (get_arch E c) False) st2)))
             else Inr st2)"

text \<open>
  The body of \<open>for (test_fn, compare_configs) in all_arch_tests\<close>.
\<close>

definition run_test ::
  "'w engine \<Rightarrow> 'w host \<Rightarrow> conf list \<Rightarrow> string \<times> 'w test \<times> bool \<Rightarrow> 'w state \<Rightarrow> error + 'w state" where
  "run_test E H arch_configs t st =
     (case t of (name, test_fn, compare_configs) \<Rightarrow>
        (let st1 = print (Msg ''Resetting all architecture Config instances prior to next test...'') st;
             st2 = st1\<lparr>world := fold (\<lambda>arch w. conf_reset E w arch) arch_configs (world st1)\<rparr>;
             st3 = print (Doc name) st2
         in case for_each (run_conf E H test_fn compare_configs) arch_configs st3 of
              Inl e \<Rightarrow> Inl e
            | Inr st4 \<Rightarrow> Inr (print (Msg []) st4)))"

text \<open>
  The end of \<open>run_tests\<close>.
\<close>

definition summary :: "'w state \<Rightarrow> 'w state" where
  "summary st =
     (if all_ok st
      then print (Pairs_tested (nconfigs st)) (print (Msg ''All OK'') st)
      else print (Msg ''Some tests failed'') st)"

definition run_tests ::
  "nat \<Rightarrow> 'w engine \<Rightarrow> 'w host \<Rightarrow> node \<Rightarrow> 'w state \<Rightarrow> error + 'w state" where
  "run_tests fuel E H tree st =
     (case get_arch_configs H tree
             (print (Msg ''Loading Config instances for all architectures...'') st) of
        Inl e \<Rightarrow> Inl e
      | Inr (arch_configs, st1) \<Rightarrow>
          (case for_each (run_test E H arch_configs) (all_arch_tests fuel E H tree) st1 of
             Inl e \<Rightarrow> Inl e
           | Inr st2 \<Rightarrow> Inr (summary st2)))"

text \<open>
  The script: the statements at module level, then \<open>run_tests()\<close>. Nothing in the
  script sets an exit status, so the interpreter exits with 0 when \<open>run_tests\<close>
  returns and with 1 when an exception leaves it.
\<close>

definition script ::
  "nat \<Rightarrow> 'w engine \<Rightarrow> 'w host \<Rightarrow> node \<Rightarrow> 'w \<Rightarrow> (string \<rightharpoonup> string) \<Rightarrow> error + 'w state" where
  "script fuel E H tree w env = run_tests fuel E H tree (init_state w env)"

definition exit_status :: "error + 'w state \<Rightarrow> int" where
  "exit_status r = (case r of Inl e \<Rightarrow> 1 | Inr st \<Rightarrow> 0)"

section \<open>Evaluation of expressions, from the specification\<close>

text \<open>
  Modelled from the spec: \<open>Config.eval\<close> belongs to the library, which is not part of
  the sources at hand. The specification says that the engine "fails with a
  syntax-error condition when given a malformed logical expression to evaluate". A
  logical expression is read here as names joined by the binary connectives \<open>&&\<close>
  and \<open>||\<close>, with the prefix \<open>!\<close>, parentheses and the comparisons \<open>=\<close> and \<open>!=\<close>
  between two names. What a well-formed expression evaluates to is outside the
  specification, so the value is a parameter.
\<close>

datatype token = Word string | And | Or | Not | Eq | Neq | LParen | RParen

definition word :: "string \<Rightarrow> token list" where
  "word acc = (if acc = [] then [] else [Word acc])"

text \<open>
  The tokens of an expression; \<open>acc\<close> holds the characters of the name being read.
  \<open>None\<close> for a character that starts no token.
\<close>

fun lex :: "string \<Rightarrow> string \<Rightarrow> token list option" where
  "lex acc [] = Some (word acc)"
| "lex acc (c # cs) =
     (if is_word c then lex (acc @ [c]) cs
      else if c = CHR '' '' then map_option (\<lambda>ts. word acc @ ts) (lex [] cs)
      else if c = CHR ''('' then map_option (\<lambda>ts. word acc @ LParen # ts) (lex [] cs)
      else if c = CHR '')'' then map_option (\<lambda>ts. word acc @ RParen # ts) (lex [] cs)
      else if c = CHR ''='' then map_option (\<lambda>ts. word acc @ Eq # ts) (lex [] cs)
      else if c = CHR ''&'' then
        (case cs of
           [] \<Rightarrow> None
         | d # ds \<Rightarrow>
             if d = CHR ''&'' then map_option (\<lambda>ts. word acc @ And # ts) (lex [] ds)
             else None)
      else if c = CHR ''|'' then
        (case cs of
           [] \<Rightarrow> None
         | d # ds \<Rightarrow>
             if d = CHR ''|'' then map_option (\<lambda>ts. word acc @ Or # ts) (lex [] ds)
             else None)
      else if c = CHR ''!'' then
        (case cs of
           [] \<Rightarrow> Some (word acc @ [Not])
         | d # ds \<Rightarrow>
             if d = CHR ''='' then map_option (\<lambda>ts. word acc @ Neq # ts) (lex [] ds)
             else map_option (\<lambda>ts. word acc @ Not # ts) (lex [] cs))
      else None)"

text \<open>
  The shape of a token list: \<open>operand\<close> says that an operand must come next (at the
  start, after a connective, after \<open>!\<close> and after an opening parenthesis), \<open>depth\<close>
  counts the open parentheses. An expression is well formed when it ends after an
  operand with no parenthesis open.
\<close>

fun well_formed :: "bool \<Rightarrow> nat \<Rightarrow> token list \<Rightarrow> bool" where
  "well_formed operand depth [] = (\<not> operand \<and> depth = 0)"
| "well_formed operand depth (Word a # Eq # Word b # ts) =
     (operand \<and> well_formed False depth ts)"
| "well_formed operand depth (Word a # Neq # Word b # ts) =
     (operand \<and> well_formed False depth ts)"
| "well_formed operand depth (Word a # ts) = (operand \<and> well_formed False depth ts)"
| "well_formed operand depth (Not # ts) = (operand \<and> well_formed True depth ts)"
| "well_formed operand depth (LParen # ts) = (operand \<and> well_formed True (Suc depth) ts)"
| "well_formed operand depth (RParen # ts) =
     (\<not> operand \<and> 0 < depth \<and> well_formed False (depth - 1) ts)"
| "well_formed operand depth (And # ts) = (\<not> operand \<and> well_formed True depth ts)"
| "well_formed operand depth (Or # ts) = (\<not> operand \<and> well_formed True depth ts)"
| "well_formed operand depth (Eq # ts) = False"
| "well_formed operand depth (Neq # ts) = False"

definition malformed :: "string \<Rightarrow> bool" where
  "malformed e = (case lex [] e of None \<Rightarrow> True | Some ts \<Rightarrow> \<not> well_formed True 0 ts)"

definition eval_spec :: "tri \<Rightarrow> string \<Rightarrow> error + tri" where
  "eval_spec v e = (if malformed e then Inl Kconfig_Syntax_Error else Inr v)"

section \<open>A small engine and host\<close>

text \<open>
  A configuration with one tristate symbol \<open>FOO\<close> outside any choice, which can
  always take every value, and a reference tool that writes a two-line header before
  its output. They serve to run the definitions above on concrete inputs.
\<close>

record toy_world =
  val :: tri
  dot_config :: "string list option"
  my_config :: "string list option"
  fail_log :: "(string \<times> string) list"
  n_confs :: nat

definition toy_line :: "tri \<Rightarrow> string" where
  "toy_line v =
     (case v of N \<Rightarrow> ''# CONFIG_FOO is not set\<newline>''
              | M \<Rightarrow> ''CONFIG_FOO=m\<newline>''
              | Y \<Rightarrow> ''CONFIG_FOO=y\<newline>'')"

definition toy_header :: "string list" where
  "toy_header = [''#\<newline>'', ''# Linux kernel\<newline>'']"

definition toy_engine :: "toy_world engine" where
  "toy_engine =
     \<lparr>get_arch = (\<lambda>c. if c = 0 then ''alpha'' else if c = 1 then ''sh'' else ''sh64''),
      iter_syms = (\<lambda>w c. [0]),
      get_symbols = (\<lambda>w c. [0]),
      get_choices = (\<lambda>w c. []),
      is_choice_item = (\<lambda>w s. False),
      get_lower_bound = (\<lambda>w s. Some N),
      get_upper_bound = (\<lambda>w s. Some Y),
      calc_value = (\<lambda>w s. val w),
      set_value = (\<lambda>w s v. w\<lparr>val := v\<rparr>),
      get_visibility = (\<lambda>w ch. N),
      get_selection_from_defaults = (\<lambda>w ch. None),
      get_user_selection = (\<lambda>w ch. None),
      get_items = (\<lambda>w ch. []),
      eval_expr = (\<lambda>w c e. eval_spec (val w) e),
      conf_reset = (\<lambda>w c. w\<lparr>val := M\<rparr>),
      sym_reset = (\<lambda>w s. w\<lparr>val := M\<rparr>),
      get_name = (\<lambda>w s. ''FOO''),
      is_special = (\<lambda>w s. False),
      is_from_environment = (\<lambda>w s. False),
      is_defined = (\<lambda>w s. True),
      get_def_locations = (\<lambda>w s. [(''Kconfig'', 1)]),
      get_ref_locations = (\<lambda>w s. []),
      load_config = (\<lambda>w c f. w\<lparr>val := Y\<rparr>),
      write_config = (\<lambda>w c f. w\<lparr>my_config := Some [toy_line (val w)]\<rparr>)\<rparr>"

text \<open>
  The reference tool of the small host. With \<open>faulty\<close> set it disagrees with the
  library on \<open>allyesconfig\<close> for the architecture \<open>sh64\<close> and on every defconfig for
  the architecture \<open>sh\<close>.
\<close>

definition toy_shell :: "bool \<Rightarrow> toy_world \<Rightarrow> (string \<rightharpoonup> string) \<Rightarrow> string \<Rightarrow> toy_world" where
  "toy_shell faulty w env cmd =
     (if cmd = ''make allnoconfig'' then w\<lparr>dot_config := Some (toy_header @ [toy_line N])\<rparr>
      else if cmd = ''make alldefconfig'' then w\<lparr>dot_config := Some (toy_header @ [toy_line M])\<rparr>
      else if cmd = ''make allyesconfig'' then
        w\<lparr>dot_config := Some (toy_header @
             [toy_line (if faulty \<and> env ''ARCH'' = Some ''sh64'' then M else Y)])\<rparr>
      else if cmd = ''make kconfiglibtestconfig'' then
        w\<lparr>dot_config := Some (toy_header @
             [toy_line (if faulty \<and> env ''ARCH'' = Some ''sh'' then M else Y)])\<rparr>
      else w)"

definition toy_host :: "bool \<Rightarrow> toy_world host" where
  "toy_host faulty =
     \<lparr>new_config = (\<lambda>w env. Inr (n_confs w, w\<lparr>n_confs := n_confs w + 1\<rparr>)),
      shell = toy_shell faulty,
      path_exists = (\<lambda>w f. (f = ''.config'' \<and> dot_config w \<noteq> None)
                          \<or> (f = ''._config'' \<and> my_config w \<noteq> None)),
      os_remove = (\<lambda>w f. if f = ''.config'' then w\<lparr>dot_config := None\<rparr>
                          else if f = ''._config'' then w\<lparr>my_config := None\<rparr> else w),
      readlines = (\<lambda>w f. if f = ''.config'' then dot_config w
                          else if f = ''._config'' then my_config w else None),
      fail_log_open = (\<lambda>w. w),
      fail_log_write = (\<lambda>w a d. w\<lparr>fail_log := fail_log w @ [(a, d)]\<rparr>)\<rparr>"


definition toy_init :: toy_world where
  "toy_init = \<lparr>val = M, dot_config = None, my_config = None, fail_log = [], n_confs = 0\<rparr>"

text \<open>
  A small \<open>arch\<close> directory: \<open>alpha\<close> with a \<open>Kconfig\<close> and a \<open>defconfig\<close>; \<open>sh\<close> with a
  \<open>Kconfig\<close> and a \<open>configs\<close> directory holding a file and a subdirectory with one
  file; \<open>h8300\<close>, which the test suite leaves out; and a plain file.
\<close>

definition toy_tree :: node where
  "toy_tree =
     Dir [(''alpha'', Dir [(''Kconfig'', File), (''defconfig'', File)]),
          (''sh'', Dir [(''Kconfig'', File),
                        (''configs'', Dir [(''one'', File), (''sub'', Dir [(''two'', File)])])]),
          (''h8300'', Dir [(''Kconfig'', File)]),
          (''Kconfig'', File)]"

section \<open>Assumptions on the engine for convergence\<close>

text \<open>
  The assumption under which the minimal-configuration loop is said to converge:
  a pass leaves the symbols of the instance the same, raises the value of none of
  them, and when it assigns a value (\<open>done\<close> is false after it) strictly lowers the
  value of at least one.
\<close>

definition all_no_progress :: "'w engine \<Rightarrow> conf \<Rightarrow> bool" where
  "all_no_progress E c =
     (\<forall>w. case all_no_pass E c w of (w', done) \<Rightarrow>
        iter_syms E w' c = iter_syms E w c
        \<and> (\<forall>t \<in> set (iter_syms E w c).
              tri_to_int (calc_value E w' t) \<le> tri_to_int (calc_value E w t))
        \<and> (\<not> done \<longrightarrow> (\<exists>t \<in> set (iter_syms E w c).
              tri_less (calc_value E w' t) (calc_value E w t))))"

text \<open>
  The same for the maximal-configuration loop, over the symbols \<open>get_symbols\<close>
  returns: a pass lowers none and, when it assigns a value, strictly raises one.
\<close>

definition all_yes_progress :: "'w engine \<Rightarrow> conf \<Rightarrow> sym list \<Rightarrow> bool" where
  "all_yes_progress E c syms =
     (\<forall>w. case all_yes_pass E c syms w of (w', done) \<Rightarrow>
        get_symbols E w' c = get_symbols E w c
        \<and> (\<forall>t \<in> set (get_symbols E w c).
              tri_to_int (calc_value E w t) \<le> tri_to_int (calc_value E w' t))
        \<and> (\<not> done \<longrightarrow> (\<exists>t \<in> set (get_symbols E w c).
              tri_less (calc_value E w t) (calc_value E w' t))))"

text \<open>
  The measure of convergence: the sum of the values of the symbols, with
  \<open>n = 0\<close>, \<open>m = 1\<close> and \<open>y = 2\<close>.
\<close>

definition total_value :: "'w engine \<Rightarrow> 'w \<Rightarrow> sym list \<Rightarrow> nat" where
  "total_value E w syms = sum_list (map (\<lambda>t. tri_to_int (calc_value E w t)) syms)"

section \<open>Reading the output of a run\<close>

text \<open>
  What the output says was attempted, whatever the verdicts: a scenario whose
  docstring was printed, a comparison printed for an architecture, a call of
  \<open>test_call_all\<close> announced for an architecture, and a replay printed for an
  architecture and a defconfig.
\<close>

datatype entry = Scenario string | Compared string | Called string | Replayed string string

fun entry_of :: "event \<Rightarrow> entry list" where
  "entry_of (Doc f) = [Scenario f]"
| "entry_of (Arch_result a ok) = [Compared a]"
| "entry_of (For_arch a) = [Called a]"
| "entry_of (Defconfig_result a d ok) = [Replayed a d]"
| "entry_of (Msg t) = []"
| "entry_of (Sanity k name) = []"
| "entry_of (Not_a_directory p) = []"
| "entry_of (Pairs_tested n) = []"

definition entries :: "event list \<Rightarrow> entry list" where
  "entries out = concat (map entry_of out)"

text \<open>
  The pairs of architecture and defconfig for which \<open>test_defconfig\<close> printed a
  result, in the order of the output.
\<close>

fun defconfig_pair_of :: "event \<Rightarrow> (string \<times> string) list" where
  "defconfig_pair_of (Defconfig_result a d ok) = [(a, d)]"
| "defconfig_pair_of (Doc f) = []"
| "defconfig_pair_of (Arch_result a ok) = []"
| "defconfig_pair_of (For_arch a) = []"
| "defconfig_pair_of (Msg t) = []"
| "defconfig_pair_of (Sanity k name) = []"
| "defconfig_pair_of (Not_a_directory p) = []"
| "defconfig_pair_of (Pairs_tested n) = []"

definition defconfig_pairs :: "event list \<Rightarrow> (string \<times> string) list" where
  "defconfig_pairs out = concat (map defconfig_pair_of out)"

text \<open>
  The events that the code prints together with a call of \<open>fail()\<close>: a \<open>FAIL\<close>
  verdict, and each message of \<open>test_call_all\<close> but the last one.
\<close>

fun is_failure :: "event \<Rightarrow> bool" where
  "is_failure (Arch_result a ok) = (\<not> ok)"
| "is_failure (Defconfig_result a d ok) = (\<not> ok)"
| "is_failure (Sanity k name) = (k \<noteq> Undefined_unreferenced)"
| "is_failure (Doc f) = False"
| "is_failure (For_arch a) = False"
| "is_failure (Msg t) = False"
| "is_failure (Not_a_directory p) = False"
| "is_failure (Pairs_tested n) = False"

text \<open>
  What a complete run attempts for the architectures \<open>archs\<close> and the defconfigs
  \<open>defconfigs\<close>: the five scenarios in the order of \<open>all_arch_tests\<close>, each for every
  architecture, the last one for every pair of an architecture and a defconfig.
\<close>

definition expected_entries :: "string list \<Rightarrow> string list \<Rightarrow> entry list" where
  "expected_entries archs defconfigs =
     Scenario ''test_all_no'' # map Compared archs
     @ Scenario ''test_config_absent'' # map Compared archs
     @ Scenario ''test_all_yes'' # map Compared archs
     @ Scenario ''test_call_all'' # map Called archs
     @ Scenario ''test_defconfig''
       # map (\<lambda>p. Replayed (fst p) (snd p)) (List.product archs defconfigs)"

text \<open>
  The two possible ends of the output: the summary of \<open>run_tests\<close>.
\<close>

definition summary_events :: "bool \<Rightarrow> int \<Rightarrow> event list" where
  "summary_events ok n =
     (if ok then [Msg ''All OK'', Pairs_tested n] else [Msg ''Some tests failed''])"

text \<open>
  The effect of a part of the run on the globals and the output, for the proofs: it
  appends events to the output; \<open>_all_ok\<close> stays set exactly when it was set and no
  appended event is a failure; the appended events read as \<open>es\<close>; \<open>nconfigs\<close> grows
  by \<open>n\<close>.
\<close>

definition effect :: "'w state \<Rightarrow> 'w state \<Rightarrow> entry list \<Rightarrow> int \<Rightarrow> bool" where
  "effect st st' es n =
     (\<exists>added. stdout st' = stdout st @ added
        \<and> all_ok_flag st' = (all_ok_flag st \<and> \<not> list_ex is_failure added)
        \<and> entries added = es
        \<and> nconfigs st' = nconfigs st + n)"

section \<open>Properties of the snapshot comparator\<close>











section \<open>Properties of the fixed-point resolver\<close>

subsection \<open>What a pass assigns\<close>

lemma all_no_step_cases:
  "all_no_step E s (w, d) =
     (if \<not> is_choice_item E w s \<and> (\<exists>v. get_lower_bound E w s = Some v \<and> tri_less v (calc_value E w s))
      then (set_value E w s (the (get_lower_bound E w s)), False) else (w, d))"
  by (auto simp: all_no_step_def split: option.splits)

lemma all_no_fold_inv:
  assumes step: "\<And>w s v. P w \<Longrightarrow> \<not> is_choice_item E w s \<Longrightarrow> get_lower_bound E w s = Some v
                   \<Longrightarrow> tri_less v (calc_value E w s) \<Longrightarrow> P (set_value E w s v)"
  shows "P (fst st) \<Longrightarrow> P (fst (fold (all_no_step E) syms st))"
proof (induction syms arbitrary: st)
  case Nil then show ?case by simp
next
  case (Cons a syms)
  obtain w d where st: "st = (w, d)" by (cases st)
  have "P (fst (all_no_step E a st))"
    using Cons.prems step[of w a] by (auto simp: st all_no_step_def split: option.splits)
  then show ?case using Cons.IH by simp
qed

lemma all_yes_step_cases:
  "all_yes_step E s (w, d) =
     (if \<exists>v. get_upper_bound E w s = Some v \<and> tri_less (calc_value E w s) v
      then (set_value E w s (the (get_upper_bound E w s)), False) else (w, d))"
  by (auto simp: all_yes_step_def split: option.splits)

text \<open>
  Claim C1, as stated: the value is set to the lower bound exactly when the lower
  bound is strictly greater than the current value. The code tests
  \<open>tri_less(lower_bound, sym.calc_value())\<close>, the other direction: a symbol with
  the value \<open>y\<close> and the lower bound \<open>n\<close> is set to \<open>n\<close>, although \<open>n\<close> is not
  greater than \<open>y\<close>.
\<close>

theorem all_no_assigns_when_bound_is_lower:
  "get_lower_bound toy_engine (toy_init\<lparr>val := Y\<rparr>) 0 = Some N
   \<and> \<not> tri_less (calc_value toy_engine (toy_init\<lparr>val := Y\<rparr>) 0) N
   \<and> \<not> is_choice_item toy_engine (toy_init\<lparr>val := Y\<rparr>) 0
   \<and> all_no_step toy_engine 0 (toy_init\<lparr>val := Y\<rparr>, True) = (toy_init\<lparr>val := N\<rparr>, False)"
  by (simp add: all_no_step_def toy_engine_def toy_init_def tri_less_def)

text \<open>
  Claim C1, amended: in every pass of the minimal-configuration loop, when the loop
  comes to a symbol \<open>s\<close> (after the symbols \<open>pre\<close>, before the symbols \<open>post\<close>), the
  value of \<open>s\<close> is set to its lower bound exactly when \<open>s\<close> belongs to no choice, a
  lower bound is defined and that lower bound is strictly less than the current
  value of \<open>s\<close>; otherwise the visit changes nothing. The loop assigns nothing else:
  whatever holds of the world before a pass and is kept by every such assignment
  holds after the pass.
\<close>

theorem all_no_pass_assigns:
  "(iter_syms E w c = pre @ s # post \<longrightarrow>
      (let before = fold (all_no_step E) pre (w, True);
           after = fold (all_no_step E) (pre @ [s]) (w, True);
           w1 = fst before
       in (\<forall>v. \<not> is_choice_item E w1 s \<and> get_lower_bound E w1 s = Some v
                \<and> tri_less v (calc_value E w1 s) \<longrightarrow> after = (set_value E w1 s v, False))
        \<and> (\<not> (\<not> is_choice_item E w1 s \<and> (\<exists>v. get_lower_bound E w1 s = Some v
                \<and> tri_less v (calc_value E w1 s))) \<longrightarrow> after = before)
        \<and> all_no_pass E c w = fold (all_no_step E) post after))
   \<and> ((\<forall>w s v. P w \<and> \<not> is_choice_item E w s \<and> get_lower_bound E w s = Some v
          \<and> tri_less v (calc_value E w s) \<longrightarrow> P (set_value E w s v)) \<and> P w
        \<longrightarrow> P (fst (all_no_pass E c w)))"
proof -
  have inv: "(\<forall>w s v. P w \<and> \<not> is_choice_item E w s \<and> get_lower_bound E w s = Some v
          \<and> tri_less v (calc_value E w s) \<longrightarrow> P (set_value E w s v)) \<and> P w
        \<longrightarrow> P (fst (all_no_pass E c w))"
    unfolding all_no_pass_def
    using all_no_fold_inv [of P E "(w, True)" "iter_syms E w c"] by auto
  have pos: "iter_syms E w c = pre @ s # post \<longrightarrow>
      (let before = fold (all_no_step E) pre (w, True);
           after = fold (all_no_step E) (pre @ [s]) (w, True);
           w1 = fst before
       in (\<forall>v. \<not> is_choice_item E w1 s \<and> get_lower_bound E w1 s = Some v
                \<and> tri_less v (calc_value E w1 s) \<longrightarrow> after = (set_value E w1 s v, False))
        \<and> (\<not> (\<not> is_choice_item E w1 s \<and> (\<exists>v. get_lower_bound E w1 s = Some v
                \<and> tri_less v (calc_value E w1 s))) \<longrightarrow> after = before)
        \<and> all_no_pass E c w = fold (all_no_step E) post after)"
  proof
    assume eq: "iter_syms E w c = pre @ s # post"
    obtain w1 d1 where b: "fold (all_no_step E) pre (w, True) = (w1, d1)"
      by (cases "fold (all_no_step E) pre (w, True)")
    show "(let before = fold (all_no_step E) pre (w, True);
           after = fold (all_no_step E) (pre @ [s]) (w, True);
           w1 = fst before
       in (\<forall>v. \<not> is_choice_item E w1 s \<and> get_lower_bound E w1 s = Some v
                \<and> tri_less v (calc_value E w1 s) \<longrightarrow> after = (set_value E w1 s v, False))
        \<and> (\<not> (\<not> is_choice_item E w1 s \<and> (\<exists>v. get_lower_bound E w1 s = Some v
                \<and> tri_less v (calc_value E w1 s))) \<longrightarrow> after = before)
        \<and> all_no_pass E c w = fold (all_no_step E) post after)"
      by (auto simp: Let_def b all_no_pass_def eq all_no_step_cases)
  qed
  from pos inv show ?thesis by blast
qed

theorem all_no_pass_assigns_witness:
  "iter_syms toy_engine (toy_init\<lparr>val := Y\<rparr>) 0 = [] @ 0 # []
   \<and> \<not> is_choice_item toy_engine (toy_init\<lparr>val := Y\<rparr>) 0
   \<and> get_lower_bound toy_engine (toy_init\<lparr>val := Y\<rparr>) 0 = Some N
   \<and> tri_less N (calc_value toy_engine (toy_init\<lparr>val := Y\<rparr>) 0)
   \<and> all_no_pass toy_engine 0 (toy_init\<lparr>val := Y\<rparr>) = (toy_init\<lparr>val := N\<rparr>, False)
   \<and> my_config (fst (all_no_pass toy_engine 0 (toy_init\<lparr>val := Y\<rparr>))) = None"
  using all_no_pass_assigns
    [of toy_engine "toy_init\<lparr>val := Y\<rparr>" 0 "[]" 0 "[]" "\<lambda>w. my_config w = None"]
  by (simp add: Let_def all_no_pass_def all_no_step_def toy_engine_def toy_init_def
      tri_less_def)

text \<open>
  Claim C2, as stated: the value is set to the upper bound exactly when the upper
  bound is strictly less than the current value. The code tests
  \<open>tri_less(sym.calc_value(), upper_bound)\<close>: a symbol with the value \<open>n\<close> and the
  upper bound \<open>y\<close> is set to \<open>y\<close>, although \<open>y\<close> is not less than \<open>n\<close>.
\<close>

theorem all_yes_assigns_when_bound_is_higher:
  "get_upper_bound toy_engine (toy_init\<lparr>val := N\<rparr>) 0 = Some Y
   \<and> \<not> tri_less Y (calc_value toy_engine (toy_init\<lparr>val := N\<rparr>) 0)
   \<and> 0 \<in> set (non_choice_syms toy_engine 0 (toy_init\<lparr>val := N\<rparr>))
   \<and> all_yes_step toy_engine 0 (toy_init\<lparr>val := N\<rparr>, True) = (toy_init\<lparr>val := Y\<rparr>, False)"
  by (simp add: all_yes_step_def non_choice_syms_def toy_engine_def toy_init_def tri_less_def)

text \<open>
  Claim C2, amended: the symbols the maximal-configuration loop visits in its first
  part are those of the instance that belong to no choice when the test starts; in
  every pass, when the loop comes to such a symbol \<open>s\<close>, the value of \<open>s\<close> is set to
  its upper bound exactly when an upper bound is defined and the current value of
  \<open>s\<close> is strictly less than that upper bound; otherwise the visit changes nothing.
\<close>

theorem all_yes_pass_assigns:
  "(s \<in> set (non_choice_syms E c w0)
      \<longleftrightarrow> s \<in> set (get_symbols E w0 c) \<and> \<not> is_choice_item E w0 s)
   \<and> (non_choice_syms E c w0 = pre @ s # post \<longrightarrow>
      (let before = fold (all_yes_step E) pre (w, True);
           after = fold (all_yes_step E) (pre @ [s]) (w, True);
           w1 = fst before
       in (\<forall>v. get_upper_bound E w1 s = Some v \<and> tri_less (calc_value E w1 s) v
                \<longrightarrow> after = (set_value E w1 s v, False))
        \<and> (\<not> (\<exists>v. get_upper_bound E w1 s = Some v \<and> tri_less (calc_value E w1 s) v)
                \<longrightarrow> after = before)
        \<and> all_yes_syms_pass E (non_choice_syms E c w0) w = fold (all_yes_step E) post after))"
proof -
  have mem: "s \<in> set (non_choice_syms E c w0)
      \<longleftrightarrow> s \<in> set (get_symbols E w0 c) \<and> \<not> is_choice_item E w0 s"
    by (auto simp: non_choice_syms_def)
  have pos: "non_choice_syms E c w0 = pre @ s # post \<longrightarrow>
      (let before = fold (all_yes_step E) pre (w, True);
           after = fold (all_yes_step E) (pre @ [s]) (w, True);
           w1 = fst before
       in (\<forall>v. get_upper_bound E w1 s = Some v \<and> tri_less (calc_value E w1 s) v
                \<longrightarrow> after = (set_value E w1 s v, False))
        \<and> (\<not> (\<exists>v. get_upper_bound E w1 s = Some v \<and> tri_less (calc_value E w1 s) v)
                \<longrightarrow> after = before)
        \<and> all_yes_syms_pass E (non_choice_syms E c w0) w = fold (all_yes_step E) post after)"
  proof
    assume eq: "non_choice_syms E c w0 = pre @ s # post"
    obtain w1 d1 where b: "fold (all_yes_step E) pre (w, True) = (w1, d1)"
      by (cases "fold (all_yes_step E) pre (w, True)")
    show "(let before = fold (all_yes_step E) pre (w, True);
           after = fold (all_yes_step E) (pre @ [s]) (w, True);
           w1 = fst before
       in (\<forall>v. get_upper_bound E w1 s = Some v \<and> tri_less (calc_value E w1 s) v
                \<longrightarrow> after = (set_value E w1 s v, False))
        \<and> (\<not> (\<exists>v. get_upper_bound E w1 s = Some v \<and> tri_less (calc_value E w1 s) v)
                \<longrightarrow> after = before)
        \<and> all_yes_syms_pass E (non_choice_syms E c w0) w = fold (all_yes_step E) post after)"
      by (auto simp: Let_def b all_yes_syms_pass_def eq all_yes_step_cases)
  qed
  from mem pos show ?thesis by blast
qed

theorem all_yes_pass_assigns_witness:
  "non_choice_syms toy_engine 0 toy_init = [] @ 0 # []
   \<and> 0 \<in> set (get_symbols toy_engine toy_init 0)
   \<and> get_upper_bound toy_engine (toy_init\<lparr>val := N\<rparr>) 0 = Some Y
   \<and> tri_less (calc_value toy_engine (toy_init\<lparr>val := N\<rparr>) 0) Y
   \<and> all_yes_syms_pass toy_engine (non_choice_syms toy_engine 0 toy_init) (toy_init\<lparr>val := N\<rparr>)
       = (toy_init\<lparr>val := Y\<rparr>, False)"
  using all_yes_pass_assigns [of 0 toy_engine 0 toy_init "[]" "[]" "toy_init\<lparr>val := N\<rparr>"]
  by (simp add: Let_def all_yes_syms_pass_def all_yes_step_def non_choice_syms_def
      toy_engine_def toy_init_def tri_less_def)

subsection \<open>Convergence\<close>

lemma sum_list_strict:
  fixes f g :: "'a \<Rightarrow> nat"
  assumes "\<forall>x \<in> set xs. f x \<le> g x" and "\<exists>x \<in> set xs. f x < g x"
  shows "sum_list (map f xs) < sum_list (map g xs)"
  using assms
proof (induction xs)
  case Nil then show ?case by simp
next
  case (Cons a xs)
  have le: "sum_list (map f xs) \<le> sum_list (map g xs)"
    using Cons.prems(1) by (simp add: sum_list_mono)
  show ?case
  proof (cases "f a < g a")
    case True with le show ?thesis by simp
  next
    case False
    with Cons.prems have "\<exists>x \<in> set xs. f x < g x" by auto
    with Cons.IH Cons.prems(1) have "sum_list (map f xs) < sum_list (map g xs)" by simp
    moreover have "f a \<le> g a" using Cons.prems(1) by simp
    ultimately show ?thesis by simp
  qed
qed

lemma tri_to_int_le2: "tri_to_int v \<le> 2"
  by (cases v) simp_all

lemma total_value_bound: "total_value E w syms \<le> 2 * length syms"
  unfolding total_value_def
proof (induction syms)
  case Nil then show ?case by simp
next
  case (Cons a syms)
  with tri_to_int_le2 [of "calc_value E w a"] show ?case by simp
qed

lemma all_no_pass_decreases:
  assumes "all_no_progress E c" and "all_no_pass E c w = (w', False)"
  shows "total_value E w' (iter_syms E w' c) < total_value E w (iter_syms E w c)"
proof -
  from assms have a: "iter_syms E w' c = iter_syms E w c"
    and b: "\<forall>t \<in> set (iter_syms E w c). tri_to_int (calc_value E w' t) \<le> tri_to_int (calc_value E w t)"
    and c: "\<exists>t \<in> set (iter_syms E w c). tri_less (calc_value E w' t) (calc_value E w t)"
    unfolding all_no_progress_def by (auto dest!: spec [of _ w])
  from c have "\<exists>t \<in> set (iter_syms E w c). tri_to_int (calc_value E w' t) < tri_to_int (calc_value E w t)"
    by (simp add: tri_less_def)
  with b show ?thesis
    unfolding total_value_def a by (rule sum_list_strict)
qed

lemma all_no_loop_returns:
  assumes "all_no_progress E c"
  shows "total_value E w (iter_syms E w c) < k \<Longrightarrow> \<exists>w'. all_no_loop k E c w = Some w'"
proof (induction k arbitrary: w)
  case 0 then show ?case by simp
next
  case (Suc k)
  obtain w1 d where p: "all_no_pass E c w = (w1, d)" by (cases "all_no_pass E c w")
  show ?case
  proof (cases d)
    case True with p show ?thesis by simp
  next
    case False
    with p assms have "total_value E w1 (iter_syms E w1 c) < total_value E w (iter_syms E w c)"
      by (simp add: all_no_pass_decreases)
    with Suc.prems have "total_value E w1 (iter_syms E w1 c) < k" by simp
    from Suc.IH [OF this] p False show ?thesis by simp
  qed
qed

lemma all_yes_pass_increases:
  assumes "all_yes_progress E c syms" and "all_yes_pass E c syms w = (w', False)"
  shows "total_value E w (get_symbols E w c) < total_value E w' (get_symbols E w' c)"
proof -
  from assms have a: "get_symbols E w' c = get_symbols E w c"
    and b: "\<forall>t \<in> set (get_symbols E w c). tri_to_int (calc_value E w t) \<le> tri_to_int (calc_value E w' t)"
    and c: "\<exists>t \<in> set (get_symbols E w c). tri_less (calc_value E w t) (calc_value E w' t)"
    unfolding all_yes_progress_def by (auto dest!: spec [of _ w])
  from c have "\<exists>t \<in> set (get_symbols E w c). tri_to_int (calc_value E w t) < tri_to_int (calc_value E w' t)"
    by (simp add: tri_less_def)
  with b show ?thesis
    unfolding total_value_def a by (rule sum_list_strict)
qed

lemma all_yes_pass_symbols:
  assumes "all_yes_progress E c syms" and "all_yes_pass E c syms w = (w', d)"
  shows "get_symbols E w' c = get_symbols E w c"
  using assms unfolding all_yes_progress_def by (auto dest!: spec [of _ w])

lemma all_yes_loop_returns:
  assumes "all_yes_progress E c syms"
  shows "2 * length (get_symbols E w c) < k + total_value E w (get_symbols E w c)
         \<Longrightarrow> \<exists>w'. all_yes_loop k E c syms w = Some w'"
proof (induction k arbitrary: w)
  case 0
  with total_value_bound [of E w "get_symbols E w c"] show ?case by simp
next
  case (Suc k)
  obtain w1 d where p: "all_yes_pass E c syms w = (w1, d)" by (cases "all_yes_pass E c syms w")
  show ?case
  proof (cases d)
    case True with p show ?thesis by simp
  next
    case False
    with p assms have "total_value E w (get_symbols E w c) < total_value E w1 (get_symbols E w1 c)"
      by (simp add: all_yes_pass_increases)
    moreover have "get_symbols E w1 c = get_symbols E w c"
      using assms p by (rule all_yes_pass_symbols)
    ultimately have "2 * length (get_symbols E w1 c) < k + total_value E w1 (get_symbols E w1 c)"
      using Suc.prems by simp
    from Suc.IH [OF this] p False show ?thesis by simp
  qed
qed

lemma toy_all_no_progress: "all_no_progress toy_engine c"
  unfolding all_no_progress_def
proof
  fix w :: toy_world
  show "case all_no_pass toy_engine c w of (w', done) \<Rightarrow>
        iter_syms toy_engine w' c = iter_syms toy_engine w c
        \<and> (\<forall>t \<in> set (iter_syms toy_engine w c).
              tri_to_int (calc_value toy_engine w' t) \<le> tri_to_int (calc_value toy_engine w t))
        \<and> (\<not> done \<longrightarrow> (\<exists>t \<in> set (iter_syms toy_engine w c).
              tri_less (calc_value toy_engine w' t) (calc_value toy_engine w t)))"
    by (cases "val w") (simp_all add: all_no_pass_def all_no_step_def toy_engine_def tri_less_def)
qed

lemma toy_all_yes_progress: "all_yes_progress toy_engine c [0]"
  unfolding all_yes_progress_def
proof
  fix w :: toy_world
  show "case all_yes_pass toy_engine c [0] w of (w', done) \<Rightarrow>
        get_symbols toy_engine w' c = get_symbols toy_engine w c
        \<and> (\<forall>t \<in> set (get_symbols toy_engine w c).
              tri_to_int (calc_value toy_engine w t) \<le> tri_to_int (calc_value toy_engine w' t))
        \<and> (\<not> done \<longrightarrow> (\<exists>t \<in> set (get_symbols toy_engine w c).
              tri_less (calc_value toy_engine w t) (calc_value toy_engine w' t)))"
    by (cases "val w") (simp_all add: all_yes_pass_def all_yes_syms_pass_def all_yes_step_def toy_engine_def tri_less_def)
qed

text \<open>
  Claim C7, as stated: under the assumption on the engine, both loops end within a
  number of passes bounded by the number of symbols. The small engine meets the
  assumption and has one symbol; started with the value \<open>m\<close>, the
  minimal-configuration loop has not ended after one pass (the first pass assigns
  \<open>n\<close>, and only the second pass, which assigns nothing, ends the loop).
\<close>

theorem all_no_needs_more_passes_than_symbols:
  "all_no_progress toy_engine 0
   \<and> length (iter_syms toy_engine toy_init 0) = 1
   \<and> all_no_loop 1 toy_engine 0 toy_init = None
   \<and> all_no_loop 2 toy_engine 0 toy_init = Some (toy_init\<lparr>val := N\<rparr>)"
proof -
  have "length (iter_syms toy_engine toy_init 0) = 1
     \<and> all_no_loop 1 toy_engine 0 toy_init = None
     \<and> all_no_loop 2 toy_engine 0 toy_init = Some (toy_init\<lparr>val := N\<rparr>)"
    by (simp add: numeral_2_eq_2 all_no_pass_def all_no_step_def toy_engine_def
        toy_init_def tri_less_def)
  with toy_all_no_progress [of 0] show ?thesis by blast
qed

text \<open>
  Claim C7, amended: if every pass leaves the symbols of the instance the same,
  moves no value against the direction of the loop and, when it assigns a value,
  strictly lowers (minimal configuration) or raises (maximal configuration) the
  value of at least one symbol, then each loop ends within twice the number of
  symbols plus one passes, from every world.
\<close>

theorem loops_converge:
  "(all_no_progress E c \<longrightarrow>
      (\<exists>w'. all_no_loop (2 * length (iter_syms E w c) + 1) E c w = Some w'))
   \<and> (all_yes_progress E c syms \<longrightarrow>
      (\<exists>w'. all_yes_loop (2 * length (get_symbols E w c) + 1) E c syms w = Some w'))"
proof -
  have "total_value E w (iter_syms E w c) < 2 * length (iter_syms E w c) + 1"
    using total_value_bound [of E w "iter_syms E w c"] by simp
  then have a: "all_no_progress E c \<longrightarrow>
      (\<exists>w'. all_no_loop (2 * length (iter_syms E w c) + 1) E c w = Some w')"
    using all_no_loop_returns [of E c w "2 * length (iter_syms E w c) + 1"] by simp
  have "2 * length (get_symbols E w c) < (2 * length (get_symbols E w c) + 1) + total_value E w (get_symbols E w c)"
    by simp
  then have b: "all_yes_progress E c syms \<longrightarrow>
      (\<exists>w'. all_yes_loop (2 * length (get_symbols E w c) + 1) E c syms w = Some w')"
    using all_yes_loop_returns [of E c syms w "2 * length (get_symbols E w c) + 1"] by simp
  from a b show ?thesis by blast
qed

theorem loops_converge_witness:
  "all_no_progress toy_engine 0 \<and> all_yes_progress toy_engine 0 [0]
   \<and> (\<exists>w'. all_no_loop (2 * length (iter_syms toy_engine toy_init 0) + 1)
              toy_engine 0 toy_init = Some w')
   \<and> (\<exists>w'. all_yes_loop (2 * length (get_symbols toy_engine toy_init 0) + 1)
              toy_engine 0 [0] toy_init = Some w')"
  using loops_converge [of toy_engine 0 toy_init "[0]"]
    toy_all_no_progress [of 0] toy_all_yes_progress [of 0]
  by blast

section \<open>Properties of the run\<close>

subsection \<open>The effect of each part of the run\<close>

lemma entries_append [simp]: "entries (xs @ ys) = entries xs @ entries ys"
  by (simp add: entries_def)

lemma entries_Nil [simp]: "entries [] = []"
  by (simp add: entries_def)

lemma entries_Cons [simp]: "entries (e # xs) = entry_of e @ entries xs"
  by (simp add: entries_def)

lemma effect_refl: "effect st st [] 0"
  by (simp add: effect_def)

lemma effect_trans:
  assumes "effect a b x m" and "effect b c y n"
  shows "effect a c (x @ y) (m + n)"
proof -
  from assms(1) obtain p where p: "stdout b = stdout a @ p"
    "all_ok_flag b = (all_ok_flag a \<and> \<not> list_ex is_failure p)" "entries p = x"
    "nconfigs b = nconfigs a + m"
    unfolding effect_def by blast
  from assms(2) obtain q where q: "stdout c = stdout b @ q"
    "all_ok_flag c = (all_ok_flag b \<and> \<not> list_ex is_failure q)" "entries q = y"
    "nconfigs c = nconfigs b + n"
    unfolding effect_def by blast
  show ?thesis
    unfolding effect_def
  proof (intro exI [of _ "p @ q"] conjI)
    show "stdout c = stdout a @ p @ q" using p q by simp
    show "all_ok_flag c = (all_ok_flag a \<and> \<not> list_ex is_failure (p @ q))"
      using p q by (auto simp: list_ex_iff)
    show "entries (p @ q) = x @ y" using p q by simp
    show "nconfigs c = nconfigs a + (m + n)" using p q by simp
  qed
qed

lemma effect_print: "\<not> is_failure e \<Longrightarrow> effect st (print e st) (entry_of e) 0"
  unfolding effect_def by (intro exI [of _ "[e]"]) (simp add: print_def)

lemma effect_fail_print: "is_failure e \<Longrightarrow> effect st (fail (print e st)) (entry_of e) 0"
  unfolding effect_def by (intro exI [of _ "[e]"]) (simp add: print_def fail_def)

lemma effect_world [simp]: "effect st (st'\<lparr>world := w\<rparr>) es n = effect st st' es n"
  by (simp add: effect_def)

lemma effect_world' [simp]: "effect (st\<lparr>world := w\<rparr>) st' es n = effect st st' es n"
  by (simp add: effect_def)

lemma effect_environ [simp]: "effect st (st'\<lparr>environ := w\<rparr>) es n = effect st st' es n"
  by (simp add: effect_def)

lemma effect_environ' [simp]: "effect (st\<lparr>environ := w\<rparr>) st' es n = effect st st' es n"
  by (simp add: effect_def)

lemma effect_step:
  "effect a b x m \<Longrightarrow> effect b c y n \<Longrightarrow> x @ y = z \<Longrightarrow> m + n = k \<Longrightarrow> effect a c z k"
  using effect_trans by blast

lemma for_each_effect:
  assumes body: "\<And>x s s'. x \<in> set xs \<Longrightarrow> f x s = Inr s' \<Longrightarrow> effect s s' (g x) n"
  shows "for_each f xs st = Inr st' \<Longrightarrow> effect st st' (concat (map g xs)) (n * int (length xs))"
  using body
proof (induction xs arbitrary: st)
  case Nil
  then show ?case by (simp add: effect_refl)
next
  case (Cons x xs)
  from Cons.prems(1) obtain s1 where s1: "f x st = Inr s1" and rest: "for_each f xs s1 = Inr st'"
    by (auto split: sum.splits)
  have e1: "effect st s1 (g x) n" using Cons.prems(2) s1 by simp
  have e2: "effect s1 st' (concat (map g xs)) (n * int (length xs))"
    using Cons.IH [OF rest] Cons.prems(2) by simp
  show ?case
    by (rule effect_step [OF e1 e2]) (simp_all add: algebra_simps)
qed

lemma effect_then_print:
  "effect a b es n \<Longrightarrow> \<not> is_failure e \<Longrightarrow> effect a (print e b) (es @ entry_of e) n"
  using effect_trans [of a b es n "print e b" "entry_of e" 0] effect_print [of e b] by simp

lemma effect_then_fail_print:
  "effect a b es n \<Longrightarrow> is_failure e \<Longrightarrow> effect a (fail (print e b)) (es @ entry_of e) n"
  using effect_trans [of a b es n "fail (print e b)" "entry_of e" 0] effect_fail_print [of e b]
  by simp

lemma effect_sanity_fail:
  "effect a b es n \<Longrightarrow> k \<noteq> Undefined_unreferenced \<Longrightarrow> effect a (fail (print (Sanity k x) b)) es n"
  using effect_then_fail_print [of a b es n "Sanity k x"] by simp

lemma effect_sanity_print:
  "effect a b es n \<Longrightarrow> effect a (print (Sanity Undefined_unreferenced x) b) es n"
  using effect_then_print [of a b es n "Sanity Undefined_unreferenced x"] by simp

lemma check_symbol_effect: "effect st (check_symbol E s st) [] 0"
  unfolding check_symbol_def Let_def
  by (auto intro!: effect_sanity_fail effect_sanity_print simp: effect_refl)

lemma check_symbols_effect: "effect st (fold (check_symbol E) syms st) [] 0"
proof (induction syms arbitrary: st)
  case Nil then show ?case by (simp add: effect_refl)
next
  case (Cons a syms)
  show ?case
    using effect_trans [OF check_symbol_effect [of st E a] Cons.IH [of "check_symbol E a st"]]
    by simp
qed

lemma eval_checks_effect: "eval_checks E c st = Inr st' \<Longrightarrow> effect st st' [] 0"
  unfolding eval_checks_def
  by (auto split: sum.splits if_splits intro!: effect_sanity_fail simp: effect_refl)

lemma test_call_all_effect:
  assumes "test_call_all E c st = Inr st'"
  shows "effect st st' [Called (get_arch E c)] 0"
proof -
  let ?p = "print (For_arch (get_arch E c)) st"
  from assms obtain st1 where a: "eval_checks E c ?p = Inr st1"
    and b: "st' = fold (check_symbol E) (get_symbols E (conf_reset E (world st1) c) c)
                    (st1\<lparr>world := conf_reset E (world st1) c\<rparr>)"
    unfolding test_call_all_def Let_def by (auto split: sum.splits)
  have e1: "effect st ?p [Called (get_arch E c)] 0"
    using effect_print [of "For_arch (get_arch E c)" st] by simp
  have e2: "effect ?p st1 [] 0" using a by (rule eval_checks_effect)
  have e3: "effect st1 st' [] 0"
    unfolding b using check_symbols_effect [of "st1\<lparr>world := conf_reset E (world st1) c\<rparr>"]
    by simp
  from effect_trans [OF effect_trans [OF e1 e2] e3] show ?thesis by simp
qed

lemma test_all_no_effect: "test_all_no fuel E H c st = Inr st' \<Longrightarrow> effect st st' [] 0"
  unfolding test_all_no_def by (auto split: option.splits simp: effect_refl)

lemma test_all_yes_effect: "test_all_yes fuel E H c st = Inr st' \<Longrightarrow> effect st st' [] 0"
  unfolding test_all_yes_def by (auto split: option.splits simp: effect_refl)

lemma test_config_absent_effect: "test_config_absent E H c st = Inr st' \<Longrightarrow> effect st st' [] 0"
  unfolding test_config_absent_def by (auto simp: effect_refl)

lemma effect_nconfigs:
  "effect a b es n \<Longrightarrow> effect a (b\<lparr>nconfigs := nconfigs b + k\<rparr>) es (n + k)"
  by (auto simp: effect_def)

lemma effect_fail_world [simp]:
  "effect a (fail (b\<lparr>world := w\<rparr>)) es n = effect a (fail b) es n"
  by (simp add: effect_def fail_def)

lemma defconfig_trial_effect:
  assumes "defconfig_trial E H c d st = Inr st'"
  shows "effect st st' [Replayed (get_arch E c) d] 1"
proof -
  have base: "\<And>w. effect st (st\<lparr>world := w, nconfigs := nconfigs st + 1\<rparr>) [] 1"
    by (simp add: effect_def)
  have ok: "\<And>w. effect st (print (Defconfig_result (get_arch E c) d True)
                 (st\<lparr>world := w, nconfigs := nconfigs st + 1\<rparr>)) [Replayed (get_arch E c) d] 1"
    using effect_then_print [OF base, of "Defconfig_result (get_arch E c) d True"] by simp
  have ko: "\<And>w. effect st (fail (print (Defconfig_result (get_arch E c) d False)
                 (st\<lparr>world := w, nconfigs := nconfigs st + 1\<rparr>))) [Replayed (get_arch E c) d] 1"
    using effect_then_fail_print [OF base, of "Defconfig_result (get_arch E c) d False"] by simp
  show ?thesis
    using assms unfolding defconfig_trial_def Let_def
    by (auto split: sum.splits bool.splits simp: ok ko)
qed

lemma defconfig_trials_effect:
  assumes "for_each (defconfig_trial E H c) ds st = Inr st'"
  shows "effect st st' (map (Replayed (get_arch E c)) ds) (int (length ds))"
proof -
  have "effect st st' (concat (map (\<lambda>d. [Replayed (get_arch E c) d]) ds)) (1 * int (length ds))"
    using assms
    by (rule for_each_effect [rotated]) (rule defconfig_trial_effect)
  moreover have "concat (map (\<lambda>d. [Replayed (get_arch E c) d]) ds) = map (Replayed (get_arch E c)) ds"
    by (induction ds) simp_all
  ultimately show ?thesis by simp
qed

lemma entries_no_entry: "(\<And>e. e \<in> set xs \<Longrightarrow> entry_of e = []) \<Longrightarrow> entries xs = []"
  by (induction xs) simp_all

lemma collect_arch_warnings:
  "(\<forall>e \<in> set (snd acc). \<exists>p. e = Not_a_directory p)
   \<Longrightarrow> (\<forall>e \<in> set (snd (collect_arch entry acc)). \<exists>p. e = Not_a_directory p)"
  unfolding collect_arch_def Let_def
  by (auto split: prod.splits option.splits node.splits)

lemma fold_collect_arch_warnings:
  "(\<forall>e \<in> set (snd acc). \<exists>p. e = Not_a_directory p)
   \<Longrightarrow> (\<forall>e \<in> set (snd (fold collect_arch es acc)). \<exists>p. e = Not_a_directory p)"
proof (induction es arbitrary: acc)
  case Nil then show ?case by simp
next
  case (Cons a es)
  have "\<forall>e \<in> set (snd (collect_arch a acc)). \<exists>p. e = Not_a_directory p"
    using Cons.prems by (rule collect_arch_warnings)
  from Cons.IH [OF this] show ?case by simp
qed

lemma collect_defconfigs_warnings:
  assumes "collect_defconfigs tree = Inr (ds, ws)"
  shows "\<forall>e \<in> set ws. \<exists>p. e = Not_a_directory p"
proof -
  from assms obtain es where "tree = Dir es" and "fold collect_arch es ([], []) = (ds, ws)"
    unfolding collect_defconfigs_def by (auto split: node.splits)
  with fold_collect_arch_warnings [of "([], [])" es] show ?thesis by simp
qed

lemma effect_warnings:
  assumes "\<forall>e \<in> set ws. \<exists>p. e = Not_a_directory p"
  shows "effect st (st\<lparr>stdout := stdout st @ ws\<rparr>) [] 0"
proof -
  have "entries ws = []" using assms by (intro entries_no_entry) auto
  moreover have "\<not> list_ex is_failure ws" using assms by (auto simp: list_ex_iff)
  ultimately show ?thesis unfolding effect_def by (intro exI [of _ ws]) simp
qed

lemma test_defconfig_effect:
  assumes "collect_defconfigs tree = Inr (ds, ws)" and "test_defconfig E H tree c st = Inr st'"
  shows "effect st st' (map (Replayed (get_arch E c)) ds) (int (length ds))"
proof -
  let ?st1 = "st\<lparr>world := fail_log_open H (world st)\<rparr>"
  let ?st2 = "?st1\<lparr>stdout := stdout ?st1 @ ws\<rparr>"
  from assms have run: "for_each (defconfig_trial E H c) ds ?st2 = Inr st'"
    unfolding test_defconfig_def Let_def by simp
  have e1: "effect st ?st2 [] 0"
    using effect_warnings [OF collect_defconfigs_warnings [OF assms(1)], of ?st1] by simp
  from effect_trans [OF e1 defconfig_trials_effect [OF run]] show ?thesis by simp
qed

lemma run_conf_effect:
  assumes tf: "\<And>s s'. test_fn c s = Inr s' \<Longrightarrow> effect s s' (g c) n"
    and run: "run_conf E H test_fn cmp c st = Inr st'"
  shows "effect st st' (g c @ (if cmp then [Compared (get_arch E c)] else [])) n"
proof -
  let ?st1 = "st\<lparr>world := rm_configs H (world st),
                 environ := (environ st)(''ARCH'' \<mapsto> get_arch E c)\<rparr>"
  from run obtain st2 where t: "test_fn c ?st1 = Inr st2"
    unfolding run_conf_def Let_def by (auto split: sum.splits)
  have e1: "effect st st2 (g c) n" using tf [OF t] by simp
  show ?thesis
  proof (cases cmp)
    case False
    with run t have "st' = st2" unfolding run_conf_def Let_def by simp
    with e1 False show ?thesis by simp
  next
    case True
    with run t obtain ok where ok: "equal_confs H (world st2) = Inr ok"
      and st': "st' = (if ok then print (Arch_result (get_arch E c) True) st2
                       else fail (print (Arch_result (get_arch E c) False) st2))"
      unfolding run_conf_def Let_def by (auto split: sum.splits bool.splits)
    show ?thesis
    proof (cases ok)
      case True
      with st' effect_then_print [OF e1, of "Arch_result (get_arch E c) True"] \<open>cmp\<close>
      show ?thesis by simp
    next
      case False
      with st' effect_then_fail_print [OF e1, of "Arch_result (get_arch E c) False"] \<open>cmp\<close>
      show ?thesis by simp
    qed
  qed
qed

lemma run_test_effect:
  assumes tf: "\<And>c s s'. test_fn c s = Inr s' \<Longrightarrow> effect s s' (g c) n"
    and run: "run_test E H confs (name, test_fn, cmp) st = Inr st'"
  shows "effect st st'
           (Scenario name #
              concat (map (\<lambda>c. g c @ (if cmp then [Compared (get_arch E c)] else [])) confs))
           (n * int (length confs))"
proof -
  let ?st1 = "print (Msg ''Resetting all architecture Config instances prior to next test...'') st"
  let ?st2 = "?st1\<lparr>world := fold (\<lambda>arch w. conf_reset E w arch) confs (world ?st1)\<rparr>"
  let ?st3 = "print (Doc name) ?st2"
  from run obtain st4 where loop: "for_each (run_conf E H test_fn cmp) confs ?st3 = Inr st4"
    and st': "st' = print (Msg []) st4"
    unfolding run_test_def Let_def by (auto split: sum.splits)
  have e1: "effect st ?st1 [] 0"
    using effect_print [of "Msg _" st] by simp
  have e2: "effect st ?st2 [] 0" using e1 by simp
  have e3: "effect st ?st3 [Scenario name] 0"
    using effect_then_print [OF e2, of "Doc name"] by simp
  have e4: "effect ?st3 st4
              (concat (map (\<lambda>c. g c @ (if cmp then [Compared (get_arch E c)] else [])) confs))
              (n * int (length confs))"
    using loop by (rule for_each_effect [rotated]) (rule run_conf_effect [OF tf])
  have e5: "effect st4 st' [] 0"
    unfolding st' using effect_print [of "Msg []" st4] by simp
  from effect_trans [OF effect_trans [OF e3 e4] e5] show ?thesis by simp
qed

lemma concat_singletons: "concat (map (\<lambda>c. [f c]) xs) = map f xs"
  by (induction xs) simp_all

lemma concat_product:
  "concat (map (\<lambda>c. map (Replayed (a c)) ds) cs)
   = map (\<lambda>p. Replayed (fst p) (snd p)) (List.product (map a cs) ds)"
  by (induction cs) (simp_all add: comp_def)

lemma all_tests_effect:
  assumes col: "collect_defconfigs tree = Inr (ds, ws)"
    and run: "for_each (run_test E H confs) (all_arch_tests fuel E H tree) st = Inr st'"
  shows "effect st st' (expected_entries (map (get_arch E) confs) ds)
           (int (length confs * length ds))"
proof -
  from run obtain s1 s2 s3 s4 where
    r1: "run_test E H confs (''test_all_no'', test_all_no fuel E H, True) st = Inr s1" and
    r2: "run_test E H confs (''test_config_absent'', test_config_absent E H, True) s1 = Inr s2" and
    r3: "run_test E H confs (''test_all_yes'', test_all_yes fuel E H, True) s2 = Inr s3" and
    r4: "run_test E H confs (''test_call_all'', test_call_all E, False) s3 = Inr s4" and
    r5: "run_test E H confs (''test_defconfig'', test_defconfig E H tree, False) s4 = Inr st'"
    unfolding all_arch_tests_def by (auto split: sum.splits)
  have e1: "effect st s1 (Scenario ''test_all_no'' # map Compared (map (get_arch E) confs)) 0"
    using run_test_effect [of "test_all_no fuel E H" "\<lambda>c. []" 0, OF _ r1]
    by (simp add: test_all_no_effect concat_singletons comp_def)
  have e2: "effect s1 s2 (Scenario ''test_config_absent'' # map Compared (map (get_arch E) confs)) 0"
    using run_test_effect [of "test_config_absent E H" "\<lambda>c. []" 0, OF _ r2]
    by (simp add: test_config_absent_effect concat_singletons comp_def)
  have e3: "effect s2 s3 (Scenario ''test_all_yes'' # map Compared (map (get_arch E) confs)) 0"
    using run_test_effect [of "test_all_yes fuel E H" "\<lambda>c. []" 0, OF _ r3]
    by (simp add: test_all_yes_effect concat_singletons comp_def)
  have e4: "effect s3 s4 (Scenario ''test_call_all'' # map Called (map (get_arch E) confs)) 0"
    using run_test_effect [of "test_call_all E" "\<lambda>c. [Called (get_arch E c)]" 0, OF _ r4]
    by (simp add: test_call_all_effect concat_singletons comp_def)
  have e5: "effect s4 st'
              (Scenario ''test_defconfig''
                 # map (\<lambda>p. Replayed (fst p) (snd p)) (List.product (map (get_arch E) confs) ds))
              (int (length ds) * int (length confs))"
    using run_test_effect [of "test_defconfig E H tree"
        "\<lambda>c. map (Replayed (get_arch E c)) ds" "int (length ds)", OF _ r5]
    by (simp add: test_defconfig_effect [OF col] concat_product)
  from effect_trans [OF effect_trans [OF effect_trans [OF effect_trans [OF e1 e2] e3] e4] e5]
  show ?thesis by (simp add: expected_entries_def mult.commute)
qed

lemma for_each_rel:
  assumes step: "\<And>x s s'. f x s = Inr s' \<Longrightarrow> R s s'"
    and refl: "\<And>s. R s s" and trans: "\<And>a b c. R a b \<Longrightarrow> R b c \<Longrightarrow> R a c"
  shows "for_each f xs s = Inr s' \<Longrightarrow> R s s'"
proof (induction xs arbitrary: s)
  case Nil then show ?case using refl by simp
next
  case (Cons x xs)
  from Cons.prems obtain s1 where a: "f x s = Inr s1" and b: "for_each f xs s1 = Inr s'"
    by (auto split: sum.splits)
  from trans [OF step [OF a] Cons.IH [OF b]] show ?case .
qed

lemma add_arch_effect:
  "add_arch H d A acc = Inr acc' \<Longrightarrow> effect (snd acc) (snd acc') [] 0"
  unfolding add_arch_def Let_def
  by (auto split: prod.splits sum.splits simp: effect_refl)

lemma effect_empty_trans: "effect a b [] 0 \<Longrightarrow> effect b c [] 0 \<Longrightarrow> effect a c [] 0"
  using effect_trans [of a b "[]" 0 c "[]" 0] by simp

lemma arch_configs_step_effect:
  assumes "arch_configs_step H entry acc = Inr acc'"
  shows "effect (snd acc) (snd acc') [] 0"
proof -
  obtain archdir nd where entry: "entry = (archdir, nd)" by (cases entry)
  show ?thesis
  proof (cases "archdir \<noteq> ''h8300'' \<and> child nd ''Kconfig'' \<noteq> None")
    case False
    with assms entry have "acc' = acc" unfolding arch_configs_step_def by (auto split: if_splits)
    then show ?thesis by (simp add: effect_refl)
  next
    case True
    with assms entry
    have "for_each (add_arch H archdir) (archdir # additional_archs archdir) acc = Inr acc'"
      unfolding arch_configs_step_def by simp
    then show ?thesis
      by (rule for_each_rel [where R = "\<lambda>a b. effect (snd a) (snd b) [] 0", rotated 3])
        (auto intro: add_arch_effect effect_refl effect_empty_trans)
  qed
qed

lemma get_arch_configs_effect:
  assumes "get_arch_configs H tree st = Inr (confs, st')"
  shows "effect st st' [] 0"
proof -
  from assms obtain es res st1 st2 where
    loop: "for_each (arch_configs_step H) es ([], st) = Inr (res, st1)" and
    d1: "del_environ ''ARCH'' st1 = Inr st2" and d2: "del_environ ''SRCARCH'' st2 = Inr st'"
    unfolding get_arch_configs_def by (auto split: node.splits sum.splits prod.splits)
  have a: "effect (snd ([] :: conf list, st)) (snd (res, st1)) [] 0"
    using loop
    by (rule for_each_rel [where R = "\<lambda>a b. effect (snd a) (snd b) [] 0", rotated 3])
      (auto intro: arch_configs_step_effect effect_refl effect_empty_trans)
  have b: "effect st1 st2 [] 0"
    using d1 unfolding del_environ_def by (auto split: if_splits simp: effect_refl)
  have c: "effect st2 st' [] 0"
    using d2 unfolding del_environ_def by (auto split: if_splits simp: effect_refl)
  from a have "effect st st1 [] 0" by simp
  from effect_empty_trans [OF effect_empty_trans [OF this b] c] show ?thesis .
qed

lemma run_tests_effect:
  assumes run: "run_tests fuel E H tree st0 = Inr st"
    and confs: "get_arch_configs H tree
                  (print (Msg ''Loading Config instances for all architectures...'') st0)
                = Inr (confs, st1)"
    and col: "collect_defconfigs tree = Inr (ds, ws)"
  shows "\<exists>st2. effect st0 st2 (expected_entries (map (get_arch E) confs) ds)
                  (int (length confs * length ds))
               \<and> st = summary st2"
proof -
  let ?p = "print (Msg ''Loading Config instances for all architectures...'') st0"
  from run confs obtain st2 where
    loop: "for_each (run_test E H confs) (all_arch_tests fuel E H tree) st1 = Inr st2"
    and st: "st = summary st2"
    unfolding run_tests_def by (auto split: sum.splits)
  have e0: "effect st0 ?p [] 0" using effect_print [of "Msg _" st0] by simp
  have e1: "effect ?p st1 [] 0" using confs by (rule get_arch_configs_effect)
  have e2: "effect st1 st2 (expected_entries (map (get_arch E) confs) ds)
              (int (length confs * length ds))"
    using col loop by (rule all_tests_effect)
  from effect_trans [OF effect_trans [OF e0 e1] e2] st show ?thesis by auto
qed

lemma script_output:
  assumes run: "script fuel E H tree w env = Inr st"
    and confs: "get_arch_configs H tree
                  (print (Msg ''Loading Config instances for all architectures...'')
                     (init_state w env))
                = Inr (confs, st1)"
    and col: "collect_defconfigs tree = Inr (ds, ws)"
  shows "\<exists>pre. stdout st = pre @ summary_events (all_ok_flag st) (nconfigs st)
           \<and> entries pre = expected_entries (map (get_arch E) confs) ds
           \<and> all_ok_flag st = (\<not> list_ex is_failure pre)
           \<and> nconfigs st = int (length confs * length ds)"
proof -
  from run_tests_effect [OF run [unfolded script_def] confs col] obtain st2 where
    e: "effect (init_state w env) st2 (expected_entries (map (get_arch E) confs) ds)
          (int (length confs * length ds))" and st: "st = summary st2"
    by blast
  from e obtain pre where pre: "stdout st2 = pre" "all_ok_flag st2 = (\<not> list_ex is_failure pre)"
    "entries pre = expected_entries (map (get_arch E) confs) ds"
    "nconfigs st2 = int (length confs * length ds)"
    unfolding effect_def init_state_def by auto
  have "stdout st = pre @ summary_events (all_ok_flag st) (nconfigs st)"
    using pre st by (simp add: summary_def summary_events_def all_ok_def print_def)
  moreover have "all_ok_flag st = all_ok_flag st2" "nconfigs st = nconfigs st2"
    using st by (simp_all add: summary_def print_def)
  ultimately show ?thesis using pre by auto
qed

lemma defconfig_pairs_append [simp]:
  "defconfig_pairs (xs @ ys) = defconfig_pairs xs @ defconfig_pairs ys"
  by (simp add: defconfig_pairs_def)





lemma summary_events_pairs [simp]: "defconfig_pairs (summary_events ok n) = []"
  by (simp add: summary_events_def defconfig_pairs_def)

lemma summary_events_failure [simp]: "\<not> list_ex is_failure (summary_events ok n)"
  by (simp add: summary_events_def)


subsection \<open>The small host at work\<close>

lemma toy_collect:
  "collect_defconfigs toy_tree
   = Inr ([''arch/alpha/defconfig'', ''arch/sh/configs/one'', ''arch/sh/configs/sub/two''], [])"
  by code_simp

lemma toy_arch_configs:
  "\<exists>st1. get_arch_configs (toy_host faulty) toy_tree
           (print (Msg ''Loading Config instances for all architectures...'')
              (init_state toy_init Map.empty)) = Inr ([0, 1, 2], st1)"
proof -
  have "(case get_arch_configs (toy_host faulty) toy_tree
                  (print (Msg ''Loading Config instances for all architectures...'')
                     (init_state toy_init Map.empty)) of
           Inl e \<Rightarrow> None | Inr (cs, st1) \<Rightarrow> Some cs) = Some [0, 1, 2]"
    by (cases faulty) (simp_all, code_simp+)
  then show ?thesis by (auto split: sum.splits)
qed

lemma toy_script_returns:
  "\<exists>st. script 3 toy_engine (toy_host faulty) toy_tree toy_init Map.empty = Inr st"
proof -
  have "(case script 3 toy_engine (toy_host faulty) toy_tree toy_init Map.empty of
           Inl e \<Rightarrow> False | Inr st \<Rightarrow> True)"
    by (cases faulty) (simp_all, code_simp+)
  then show ?thesis by (auto split: sum.splits)
qed

subsection \<open>Cross-validation\<close>



subsection \<open>Failures and the end of the run\<close>

lemma get_arch_configs_Dir:
  "get_arch_configs H tree st = Inr r \<Longrightarrow> \<exists>es. tree = Dir es"
  unfolding get_arch_configs_def by (cases tree) simp_all

lemma collect_defconfigs_Dir: "\<exists>ds ws. collect_defconfigs (Dir es) = Inr (ds, ws)"
  unfolding collect_defconfigs_def by (cases "fold collect_arch es ([], [])") simp

lemma run_tests_summary:
  assumes "run_tests fuel E H tree st0 = Inr st"
  shows "\<exists>st2 es n. effect st0 st2 es n \<and> st = summary st2"
proof -
  let ?p = "print (Msg ''Loading Config instances for all architectures...'') st0"
  from assms obtain confs st1 where confs: "get_arch_configs H tree ?p = Inr (confs, st1)"
    unfolding run_tests_def by (auto split: sum.splits)
  from get_arch_configs_Dir [OF confs] collect_defconfigs_Dir
  obtain ds ws where col: "collect_defconfigs tree = Inr (ds, ws)" by blast
  from run_tests_effect [OF assms confs col] show ?thesis by blast
qed

lemma script_summary:
  assumes "script fuel E H tree w env = Inr st"
  shows "\<exists>pre. stdout st = pre @ summary_events (all_ok_flag st) (nconfigs st)
           \<and> all_ok_flag st = (\<not> list_ex is_failure pre)"
proof -
  from run_tests_summary [OF assms [unfolded script_def]] obtain st2 es n where
    e: "effect (init_state w env) st2 es n" and st: "st = summary st2" by blast
  from e have "all_ok_flag st2 = (\<not> list_ex is_failure (stdout st2))"
    unfolding effect_def init_state_def by auto
  moreover have "stdout st = stdout st2 @ summary_events (all_ok_flag st) (nconfigs st)"
    using st by (simp add: summary_def summary_events_def all_ok_def print_def)
  moreover have "all_ok_flag st = all_ok_flag st2"
    using st by (simp add: summary_def print_def)
  ultimately show ?thesis by auto
qed

lemma effect_monotone: "effect a b es n \<Longrightarrow> \<not> all_ok_flag a \<Longrightarrow> \<not> all_ok_flag b"
  by (auto simp: effect_def)

lemma summary_flag [simp]: "all_ok_flag (summary st) = all_ok_flag st"
  by (simp add: summary_def print_def)





text \<open>
  Claim C8, as stated: the exit status of the run is a failing status exactly when a
  trial failed. The script sets no exit status: a run of the small host in which the
  comparison for \<open>sh64\<close> fails returns normally (no exception leaves it), with
  \<open>_all_ok\<close> cleared, and the interpreter exits with 0.
\<close>

theorem exit_status_ignores_failures:
  "\<not> isl (script 3 toy_engine (toy_host True) toy_tree toy_init Map.empty)
   \<and> Arch_result ''sh64'' False
       \<in> set (stdout (projr (script 3 toy_engine (toy_host True) toy_tree toy_init Map.empty)))
   \<and> \<not> all_ok (projr (script 3 toy_engine (toy_host True) toy_tree toy_init Map.empty))
   \<and> exit_status (script 3 toy_engine (toy_host True) toy_tree toy_init Map.empty) = 0"
  by code_simp

text \<open>
  Claim C8, amended: the verdict that the run prints at its end is computed only
  after every scenario has been attempted for every architecture and every pair of
  an architecture and a defconfig; it is \<open>Some tests failed\<close> exactly when a failure
  was recorded before it (a \<open>FAIL\<close> verdict or a failed check of \<open>test_call_all\<close>
  that calls \<open>fail()\<close>), and \<open>All OK\<close> with the count otherwise. The exit status of
  the process is 0 in both cases.
\<close>

theorem summary_after_all_trials:
  assumes "script fuel E H tree w env = Inr st"
    and "get_arch_configs H tree
          (print (Msg ''Loading Config instances for all architectures...'')
             (init_state w env)) = Inr (arch_configs, st1)"
    and "collect_defconfigs tree = Inr (defconfigs, warnings)"
  shows "(\<exists>pre. stdout st
             = pre @ (if list_ex is_failure pre then [Msg ''Some tests failed'']
                      else [Msg ''All OK'', Pairs_tested (nconfigs st)])
           \<and> entries pre = expected_entries (map (get_arch E) arch_configs) defconfigs)
       \<and> exit_status (script fuel E H tree w env) = 0"
proof -
  from script_output [OF assms]
  obtain pre where out: "stdout st = pre @ summary_events (all_ok_flag st) (nconfigs st)"
    and ent: "entries pre = expected_entries (map (get_arch E) arch_configs) defconfigs"
    and flag: "all_ok_flag st = (\<not> list_ex is_failure pre)"
    by blast
  have "stdout st = pre @ (if list_ex is_failure pre then [Msg ''Some tests failed'']
                      else [Msg ''All OK'', Pairs_tested (nconfigs st)])"
    using out flag by (simp add: summary_events_def)
  with ent have "\<exists>pre. stdout st
             = pre @ (if list_ex is_failure pre then [Msg ''Some tests failed'']
                      else [Msg ''All OK'', Pairs_tested (nconfigs st)])
           \<and> entries pre = expected_entries (map (get_arch E) arch_configs) defconfigs"
    by blast
  moreover have "exit_status (script fuel E H tree w env) = 0"
    using assms(1) by (simp add: exit_status_def)
  ultimately show ?thesis by simp
qed

theorem summary_after_all_trials_witness:
  "case script 3 toy_engine (toy_host True) toy_tree toy_init Map.empty of
     Inl e \<Rightarrow> False
   | Inr st \<Rightarrow>
       (\<exists>pre. stdout st = pre @ [Msg ''Some tests failed'']
          \<and> list_ex is_failure pre
          \<and> entries pre = expected_entries [''alpha'', ''sh'', ''sh64'']
              [''arch/alpha/defconfig'', ''arch/sh/configs/one'', ''arch/sh/configs/sub/two''])"
proof -
  obtain st where run: "script 3 toy_engine (toy_host True) toy_tree toy_init Map.empty = Inr st"
    using toy_script_returns by blast
  obtain st1 where confs: "get_arch_configs (toy_host True) toy_tree
           (print (Msg ''Loading Config instances for all architectures...'')
              (init_state toy_init Map.empty)) = Inr ([0, 1, 2], st1)"
    using toy_arch_configs by blast
  have last: "last (stdout st) = Msg ''Some tests failed''"
  proof -
    have "(case script 3 toy_engine (toy_host True) toy_tree toy_init Map.empty of
           Inl e \<Rightarrow> False | Inr st \<Rightarrow> last (stdout st) = Msg ''Some tests failed'')"
      by code_simp
    with run show ?thesis by simp
  qed
  have archs: "map (get_arch toy_engine) [0, 1, 2] = [''alpha'', ''sh'', ''sh64'']"
    by (simp add: toy_engine_def)
  from summary_after_all_trials [OF run confs toy_collect]
  obtain pre where out: "stdout st
             = pre @ (if list_ex is_failure pre then [Msg ''Some tests failed'']
                      else [Msg ''All OK'', Pairs_tested (nconfigs st)])"
    and ent: "entries pre = expected_entries (map (get_arch toy_engine) [0, 1, 2])
              [''arch/alpha/defconfig'', ''arch/sh/configs/one'', ''arch/sh/configs/sub/two'']"
    by blast
  have ko: "list_ex is_failure pre"
  proof (rule ccontr)
    assume "\<not> list_ex is_failure pre"
    with out have "last (stdout st) = Pairs_tested (nconfigs st)" by simp
    with last show False by simp
  qed
  with out have "stdout st = pre @ [Msg ''Some tests failed'']" by simp
  with ko ent archs have "\<exists>pre. stdout st = pre @ [Msg ''Some tests failed'']
          \<and> list_ex is_failure pre
          \<and> entries pre = expected_entries [''alpha'', ''sh'', ''sh64'']
              [''arch/alpha/defconfig'', ''arch/sh/configs/one'', ''arch/sh/configs/sub/two'']"
    by (intro exI [of _ pre]) simp
  with run show ?thesis by simp
qed

lemma run_test_monotone:
  assumes t: "t \<in> set (all_arch_tests fuel E H tree)"
    and run: "run_test E H confs t s = Inr s'" and ko: "\<not> all_ok_flag s"
  shows "\<not> all_ok_flag s'"
proof -
  have tf: "\<And>name test_fn cmp g n. t = (name, test_fn, cmp) \<Longrightarrow>
              (\<And>c a b. test_fn c a = Inr b \<Longrightarrow> effect a b (g c) n) \<Longrightarrow> ?thesis"
    using run_test_effect run ko effect_monotone by blast
  from t have "t = (''test_all_no'', test_all_no fuel E H, True)
    \<or> t = (''test_config_absent'', test_config_absent E H, True)
    \<or> t = (''test_all_yes'', test_all_yes fuel E H, True)
    \<or> t = (''test_call_all'', test_call_all E, False)
    \<or> t = (''test_defconfig'', test_defconfig E H tree, False)"
    unfolding all_arch_tests_def by (simp only: list.set insert_iff empty_iff simp_thms)
  then consider (1) "t = (''test_all_no'', test_all_no fuel E H, True)"
    | (2) "t = (''test_config_absent'', test_config_absent E H, True)"
    | (3) "t = (''test_all_yes'', test_all_yes fuel E H, True)"
    | (4) "t = (''test_call_all'', test_call_all E, False)"
    | (5) "t = (''test_defconfig'', test_defconfig E H tree, False)"
    by (elim disjE) simp_all
  then show ?thesis
  proof cases
    case 1 then show ?thesis by (rule tf [where g = "\<lambda>c. []"]) (rule test_all_no_effect)
  next
    case 2 then show ?thesis by (rule tf [where g = "\<lambda>c. []"]) (rule test_config_absent_effect)
  next
    case 3 then show ?thesis by (rule tf [where g = "\<lambda>c. []"]) (rule test_all_yes_effect)
  next
    case 4 then show ?thesis
      by (rule tf [where g = "\<lambda>c. [Called (get_arch E c)]"]) (rule test_call_all_effect)
  next
    case 5
    show ?thesis
    proof (cases "collect_defconfigs tree")
      case (Inl e)
      then have "\<And>c a b. test_defconfig E H tree c a = Inr b \<Longrightarrow> effect a b [] 0"
        unfolding test_defconfig_def Let_def by simp
      with 5 show ?thesis by (rule tf [where g = "\<lambda>c. []"])
    next
      case (Inr r)
      obtain ds ws where r: "r = (ds, ws)" by (cases r)
      from 5 show ?thesis
        by (rule tf [where g = "\<lambda>c. map (Replayed (get_arch E c)) ds"])
          (rule test_defconfig_effect [OF Inr [unfolded r]])
    qed
  qed
qed

text \<open>
  Claim C10: \<open>_all_ok\<close> is set when the module is loaded; \<open>fail\<close> clears it; no part
  of the run sets it again (once cleared it stays cleared through every scenario of
  \<open>all_arch_tests\<close> and through the whole of \<open>run_tests\<close>); and at the end of the
  script it is set exactly when no failure is on record, in which case the summary
  is \<open>All OK\<close>, and \<open>Some tests failed\<close> otherwise.
\<close>

theorem ledger_monotone:
  "all_ok (init_state w env)
   \<and> \<not> all_ok (fail s)
   \<and> (t \<in> set (all_arch_tests fuel E H tree) \<and> run_test E H confs t s = Inr s' \<and> \<not> all_ok s
        \<longrightarrow> \<not> all_ok s')
   \<and> (run_tests fuel E H tree s = Inr s' \<and> \<not> all_ok s \<longrightarrow> \<not> all_ok s')
   \<and> (script fuel E H tree w env = Inr st
        \<longrightarrow> (all_ok st \<longleftrightarrow> \<not> list_ex is_failure (stdout st))
          \<and> ((\<exists>pre n. stdout st = pre @ [Msg ''All OK'', Pairs_tested n])
               \<longleftrightarrow> \<not> list_ex is_failure (stdout st))
          \<and> ((\<exists>pre. stdout st = pre @ [Msg ''Some tests failed''])
               \<longleftrightarrow> list_ex is_failure (stdout st)))"
proof -
  have a: "all_ok (init_state w env)" by (simp add: all_ok_def init_state_def)
  have b: "\<not> all_ok (fail s)" by (simp add: all_ok_def fail_def)
  have c: "t \<in> set (all_arch_tests fuel E H tree) \<and> run_test E H confs t s = Inr s' \<and> \<not> all_ok s
        \<longrightarrow> \<not> all_ok s'"
    using run_test_monotone [of t fuel E H tree confs s s'] by (simp add: all_ok_def)
  have d: "run_tests fuel E H tree s = Inr s' \<and> \<not> all_ok s \<longrightarrow> \<not> all_ok s'"
  proof
    assume h: "run_tests fuel E H tree s = Inr s' \<and> \<not> all_ok s"
    then obtain st2 es n where "effect s st2 es n" and "s' = summary st2"
      using run_tests_summary by blast
    with h effect_monotone [of s st2 es n] show "\<not> all_ok s'" by (simp add: all_ok_def)
  qed
  have e: "script fuel E H tree w env = Inr st
        \<longrightarrow> (all_ok st \<longleftrightarrow> \<not> list_ex is_failure (stdout st))
          \<and> ((\<exists>pre n. stdout st = pre @ [Msg ''All OK'', Pairs_tested n])
               \<longleftrightarrow> \<not> list_ex is_failure (stdout st))
          \<and> ((\<exists>pre. stdout st = pre @ [Msg ''Some tests failed''])
               \<longleftrightarrow> list_ex is_failure (stdout st))"
  proof
    assume "script fuel E H tree w env = Inr st"
    from script_summary [OF this] obtain pre where
      out: "stdout st = pre @ summary_events (all_ok_flag st) (nconfigs st)" and
      flag: "all_ok_flag st = (\<not> list_ex is_failure pre)" by blast
    have f: "list_ex is_failure (stdout st) = list_ex is_failure pre"
      using out by (simp add: list_ex_iff summary_events_def)
    show "(all_ok st \<longleftrightarrow> \<not> list_ex is_failure (stdout st))
          \<and> ((\<exists>pre n. stdout st = pre @ [Msg ''All OK'', Pairs_tested n])
               \<longleftrightarrow> \<not> list_ex is_failure (stdout st))
          \<and> ((\<exists>pre. stdout st = pre @ [Msg ''Some tests failed''])
               \<longleftrightarrow> list_ex is_failure (stdout st))"
    proof (cases "all_ok_flag st")
      case True
      with out have o: "stdout st = pre @ [Msg ''All OK'', Pairs_tested (nconfigs st)]"
        by (simp add: summary_events_def)
      have "\<not> (\<exists>p. stdout st = p @ [Msg ''Some tests failed''])"
      proof
        assume "\<exists>p. stdout st = p @ [Msg ''Some tests failed'']"
        then obtain p where "stdout st = p @ [Msg ''Some tests failed'']" by blast
        then have "last (stdout st) = Msg ''Some tests failed''" by simp
        moreover from o have "last (stdout st) = Pairs_tested (nconfigs st)" by simp
        ultimately show False by simp
      qed
      with True flag f o show ?thesis by (auto simp: all_ok_def)
    next
      case False
      with out have o: "stdout st = pre @ [Msg ''Some tests failed'']"
        by (simp add: summary_events_def)
      have "\<not> (\<exists>p n. stdout st = p @ [Msg ''All OK'', Pairs_tested n])"
      proof
        assume "\<exists>p n. stdout st = p @ [Msg ''All OK'', Pairs_tested n]"
        then obtain p n where "stdout st = p @ [Msg ''All OK'', Pairs_tested n]" by blast
        then have "last (stdout st) = Pairs_tested n" by simp
        moreover from o have "last (stdout st) = Msg ''Some tests failed''" by simp
        ultimately show False by simp
      qed
      with False flag f o show ?thesis by (auto simp: all_ok_def)
    qed
  qed
  from a b c d e show ?thesis by blast
qed

theorem ledger_monotone_witness:
  "all_ok (init_state toy_init Map.empty)
   \<and> \<not> all_ok (fail (init_state toy_init Map.empty))
   \<and> (case run_test toy_engine (toy_host False) [0]
              (''test_config_absent'', test_config_absent toy_engine (toy_host False), True)
              (fail (init_state toy_init Map.empty)) of
         Inl e \<Rightarrow> False | Inr s' \<Rightarrow> \<not> all_ok s')
   \<and> (case run_tests 3 toy_engine (toy_host False) toy_tree
              (fail (init_state toy_init Map.empty)) of
         Inl e \<Rightarrow> False | Inr s' \<Rightarrow> \<not> all_ok s')
   \<and> (case script 3 toy_engine (toy_host True) toy_tree toy_init Map.empty of
         Inl e \<Rightarrow> False
       | Inr st \<Rightarrow> \<not> all_ok st \<and> list_ex is_failure (stdout st)
                   \<and> (\<exists>pre. stdout st = pre @ [Msg ''Some tests failed'']))
   \<and> (case script 3 toy_engine (toy_host False) toy_tree toy_init Map.empty of
         Inl e \<Rightarrow> False
       | Inr st \<Rightarrow> all_ok st \<and> \<not> list_ex is_failure (stdout st)
                   \<and> (\<exists>pre n. stdout st = pre @ [Msg ''All OK'', Pairs_tested n]))"
proof -
  let ?s = "fail (init_state toy_init Map.empty) :: toy_world state"
  let ?t = "(''test_config_absent'', test_config_absent toy_engine (toy_host False), True)"
  have ko: "\<not> all_ok ?s" by (simp add: all_ok_def fail_def)
  have mem: "?t \<in> set (all_arch_tests 3 toy_engine (toy_host False) toy_tree)"
    unfolding all_arch_tests_def by (simp only: list.set insert_iff simp_thms)
  have "(case run_test toy_engine (toy_host False) [0] ?t ?s of Inl e \<Rightarrow> False | Inr s' \<Rightarrow> True)"
    by code_simp
  then obtain s1 where r1: "run_test toy_engine (toy_host False) [0] ?t ?s = Inr s1"
    by (auto split: sum.splits)
  have "(case run_tests 3 toy_engine (toy_host False) toy_tree ?s of
           Inl e \<Rightarrow> False | Inr s' \<Rightarrow> True)"
    by code_simp
  then obtain s2 where r2: "run_tests 3 toy_engine (toy_host False) toy_tree ?s = Inr s2"
    by (auto split: sum.splits)
  obtain st3 where r3: "script 3 toy_engine (toy_host True) toy_tree toy_init Map.empty = Inr st3"
    using toy_script_returns by blast
  obtain st4 where r4: "script 3 toy_engine (toy_host False) toy_tree toy_init Map.empty = Inr st4"
    using toy_script_returns by blast
  have "(case script 3 toy_engine (toy_host True) toy_tree toy_init Map.empty of
           Inl e \<Rightarrow> False | Inr st \<Rightarrow> \<not> all_ok st)"
    by code_simp
  with r3 have ko3: "\<not> all_ok st3" by simp
  have "(case script 3 toy_engine (toy_host False) toy_tree toy_init Map.empty of
           Inl e \<Rightarrow> False | Inr st \<Rightarrow> all_ok st)"
    by code_simp
  with r4 have ok4: "all_ok st4" by simp
  have a: "\<not> all_ok s1"
    using ledger_monotone [of toy_init Map.empty ?s ?t 3 toy_engine "toy_host False" toy_tree "[0]" s1]
      mem r1 ko by blast
  have b: "\<not> all_ok s2"
    using ledger_monotone [where s = ?s and s' = s2 and fuel = 3 and E = toy_engine
        and H = "toy_host False" and tree = toy_tree] r2 ko by blast
  have c: "list_ex is_failure (stdout st3) \<and> (\<exists>pre. stdout st3 = pre @ [Msg ''Some tests failed''])"
    using ledger_monotone [where fuel = 3 and E = toy_engine and H = "toy_host True"
        and tree = toy_tree and w = toy_init and env = Map.empty and st = st3] r3 ko3 by blast
  have d: "\<not> list_ex is_failure (stdout st4)
           \<and> (\<exists>pre n. stdout st4 = pre @ [Msg ''All OK'', Pairs_tested n])"
    using ledger_monotone [where fuel = 3 and E = toy_engine and H = "toy_host False"
        and tree = toy_tree and w = toy_init and env = Map.empty and st = st4] r4 ok4 by blast
  have e: "all_ok (init_state toy_init Map.empty :: toy_world state)"
    by (simp add: all_ok_def init_state_def)
  from a b c d e ko r1 r2 r3 r4 ko3 ok4 show ?thesis by simp
qed

subsection \<open>The syntax-error check of \<open>test_call_all\<close>\<close>



subsection \<open>The bound on the passes\<close>

text \<open>
  The loops of the source have no bound on their passes; the bound of the model
  only says how far a loop is followed. A loop, a test and a whole run that return
  under one bound return the same under every larger bound.
\<close>

lemma all_no_loop_more_passes:
  "all_no_loop k E c w = Some w' \<Longrightarrow> all_no_loop (k + j) E c w = Some w'"
proof (induction k arbitrary: w)
  case 0 then show ?case by simp
next
  case (Suc k)
  then show ?case by (auto split: prod.splits if_splits)
qed

lemma all_yes_loop_more_passes:
  "all_yes_loop k E c syms w = Some w' \<Longrightarrow> all_yes_loop (k + j) E c syms w = Some w'"
proof (induction k arbitrary: w)
  case 0 then show ?case by simp
next
  case (Suc k)
  then show ?case by (auto split: prod.splits if_splits)
qed

lemma for_each_mono:
  assumes "\<And>x s s'. f x s = Inr s' \<Longrightarrow> g x s = Inr s'"
  shows "for_each f xs s = Inr s' \<Longrightarrow> for_each g xs s = Inr s'"
proof (induction xs arbitrary: s)
  case Nil then show ?case by simp
next
  case (Cons x xs)
  from Cons.prems obtain s1 where a: "f x s = Inr s1" and b: "for_each f xs s1 = Inr s'"
    by (auto split: sum.splits)
  from assms [OF a] Cons.IH [OF b] show ?case by simp
qed

lemma run_conf_mono:
  assumes "\<And>c s s'. f c s = Inr s' \<Longrightarrow> g c s = Inr s'"
  shows "run_conf E H f cmp c s = Inr s' \<Longrightarrow> run_conf E H g cmp c s = Inr s'"
  unfolding run_conf_def Let_def
  by (auto split: sum.splits dest!: assms)

lemma run_test_mono:
  assumes "\<And>c s s'. f c s = Inr s' \<Longrightarrow> g c s = Inr s'"
  shows "run_test E H confs (name, f, cmp) s = Inr s'
         \<Longrightarrow> run_test E H confs (name, g, cmp) s = Inr s'"
proof -
  assume r: "run_test E H confs (name, f, cmp) s = Inr s'"
  let ?s3 = "print (Doc name)
     ((print (Msg ''Resetting all architecture Config instances prior to next test...'') s)
        \<lparr>world := fold (\<lambda>arch w. conf_reset E w arch) confs
           (world (print (Msg ''Resetting all architecture Config instances prior to next test...'') s))\<rparr>)"
  from r obtain s4 where a: "for_each (run_conf E H f cmp) confs ?s3 = Inr s4"
    and b: "s' = print (Msg []) s4"
    unfolding run_test_def Let_def by (auto split: sum.splits)
  have "for_each (run_conf E H g cmp) confs ?s3 = Inr s4"
    using a by (rule for_each_mono [rotated]) (rule run_conf_mono [OF assms])
  with b show ?thesis unfolding run_test_def Let_def by simp
qed

lemma test_all_no_more_passes:
  "test_all_no k E H c s = Inr s' \<Longrightarrow> test_all_no (k + j) E H c s = Inr s'"
  unfolding test_all_no_def
  by (auto split: option.splits dest: all_no_loop_more_passes [where j = j])

lemma test_all_yes_more_passes:
  "test_all_yes k E H c s = Inr s' \<Longrightarrow> test_all_yes (k + j) E H c s = Inr s'"
  unfolding test_all_yes_def
  by (auto split: option.splits dest: all_yes_loop_more_passes [where j = j])

lemma script_more_passes:
  assumes "script k E H tree w env = Inr st"
  shows "script (k + j) E H tree w env = Inr st"
proof -
  let ?p = "print (Msg ''Loading Config instances for all architectures...'') (init_state w env)"
  from assms obtain confs s0 s5 where
    g: "get_arch_configs H tree ?p = Inr (confs, s0)" and
    l: "for_each (run_test E H confs) (all_arch_tests k E H tree) s0 = Inr s5" and
    st: "st = summary s5"
    unfolding script_def run_tests_def by (auto split: sum.splits)
  from l obtain s1 s2 s3 s4 where
    r1: "run_test E H confs (''test_all_no'', test_all_no k E H, True) s0 = Inr s1" and
    r2: "run_test E H confs (''test_config_absent'', test_config_absent E H, True) s1 = Inr s2" and
    r3: "run_test E H confs (''test_all_yes'', test_all_yes k E H, True) s2 = Inr s3" and
    r4: "run_test E H confs (''test_call_all'', test_call_all E, False) s3 = Inr s4" and
    r5: "run_test E H confs (''test_defconfig'', test_defconfig E H tree, False) s4 = Inr s5"
    unfolding all_arch_tests_def by (auto split: sum.splits)
  have r1': "run_test E H confs (''test_all_no'', test_all_no (k + j) E H, True) s0 = Inr s1"
    using r1 by (rule run_test_mono [rotated]) (rule test_all_no_more_passes)
  have r3': "run_test E H confs (''test_all_yes'', test_all_yes (k + j) E H, True) s2 = Inr s3"
    using r3 by (rule run_test_mono [rotated]) (rule test_all_yes_more_passes)
  have "for_each (run_test E H confs) (all_arch_tests (k + j) E H tree) s0 = Inr s5"
    unfolding all_arch_tests_def using r1' r2 r3' r4 r5 by simp
  with g st show ?thesis unfolding script_def run_tests_def by simp
qed

end
